theory Spec2Isabelle
  imports Main
begin

section \<open>The Lunix:TNG sensor monitor (lunix-monitor.c)\<close>

text \<open>
  A shallow embedding of \<^verbatim>\<open>lunix-monitor.c\<close>: the per-channel read routine
  \<^verbatim>\<open>try_read\<close>, the start-up loop that opens the device nodes, the poll pass, the
  frame drawn by \<^verbatim>\<open>mvprintw\<close>, and the main loop with its clean-up.

  The C arrays are lists whose accesses are checked: an access outside a buffer, or a
  read of a byte of the stack buffer that nothing has written, is a \<open>fault\<close> value,
  so that "the code stays within its buffers" is a statement about the model and not
  an assumption of it. The operating system is an explicit input: what \<^verbatim>\<open>open\<close>
  answers for a path, what \<^verbatim>\<open>read\<close> delivers to a call, which key \<^verbatim>\<open>getch\<close> sees
  in a cycle.
\<close>

subsection \<open>Constants and the sensor record\<close>

definition MAX_SENSORS :: nat where
  "MAX_SENSORS = 16"

definition BUF_SIZE :: nat where
  "BUF_SIZE = 32"

abbreviation NUL :: char where
  "NUL \<equiv> CHR 0x00"

abbreviation NL :: char where
  "NL \<equiv> CHR 0x0A"

record sensor_data =
  fd_batt :: int
  fd_temp :: int
  fd_light :: int
  val_batt :: "char list"
  val_temp :: "char list"
  val_light :: "char list"

text \<open>The three channels of a sensor: the three call sites of each loop body.\<close>

datatype metric = Batt | Temp | Light

fun fd_of :: "metric \<Rightarrow> sensor_data \<Rightarrow> int" where
  "fd_of Batt s = fd_batt s"
| "fd_of Temp s = fd_temp s"
| "fd_of Light s = fd_light s"

fun val_of :: "metric \<Rightarrow> sensor_data \<Rightarrow> char list" where
  "val_of Batt s = val_batt s"
| "val_of Temp s = val_temp s"
| "val_of Light s = val_light s"

fun set_val :: "metric \<Rightarrow> char list \<Rightarrow> sensor_data \<Rightarrow> sensor_data" where
  "set_val Batt b s = s\<lparr>val_batt := b\<rparr>"
| "set_val Temp b s = s\<lparr>val_temp := b\<rparr>"
| "set_val Light b s = s\<lparr>val_light := b\<rparr>"

fun set_fd :: "metric \<Rightarrow> int \<Rightarrow> sensor_data \<Rightarrow> sensor_data" where
  "set_fd Batt fd s = s\<lparr>fd_batt := fd\<rparr>"
| "set_fd Temp fd s = s\<lparr>fd_temp := fd\<rparr>"
| "set_fd Light fd s = s\<lparr>fd_light := fd\<rparr>"

fun metric_name :: "metric \<Rightarrow> string" where
  "metric_name Batt = ''batt''"
| "metric_name Temp = ''temp''"
| "metric_name Light = ''light''"

subsection \<open>Checked memory and the C library routines the monitor calls\<close>

datatype fault = OutOfBounds | Uninitialised

definition and_then :: "fault + 'a \<Rightarrow> ('a \<Rightarrow> fault + 'b) \<Rightarrow> fault + 'b" where
  "and_then m f = (case m of Inl e \<Rightarrow> Inl e | Inr x \<Rightarrow> f x)"

definition load :: "'a list \<Rightarrow> nat \<Rightarrow> fault + 'a" where
  "load xs i = (if i < length xs then Inr (xs ! i) else Inl OutOfBounds)"

definition store :: "'a list \<Rightarrow> nat \<Rightarrow> 'a \<Rightarrow> fault + 'a list" where
  "store xs i v = (if i < length xs then Inr (xs[i := v]) else Inl OutOfBounds)"

text \<open>
  A \<^verbatim>\<open>for (i = 0; i < n; i++)\<close> loop over a state, stopping at the first fault,
  and the same loop collecting what each round produces.
\<close>

primrec for_each :: "('a \<Rightarrow> 's \<Rightarrow> fault + 's) \<Rightarrow> 'a list \<Rightarrow> 's \<Rightarrow> fault + 's" where
  "for_each f [] s = Inr s"
| "for_each f (i # is) s = and_then (f i s) (for_each f is)"

primrec collect :: "('a \<Rightarrow> fault + 'b) \<Rightarrow> 'a list \<Rightarrow> fault + 'b list" where
  "collect f [] = Inr []"
| "collect f (i # is) = and_then (f i) (\<lambda>y. and_then (collect f is) (\<lambda>ys. Inr (y # ys)))"

text \<open>
  What one \<^verbatim>\<open>read(fd, buf, count)\<close> call meets: an error (the call returns -1, as
  it does when a non-blocking device has nothing ready), or the bytes the device has
  for it (none at all: the call returns 0). The call stores at most \<open>count\<close> of
  them at the start of \<open>buf\<close> and returns how many. A cell of the stack buffer
  is \<open>None\<close> until something is written to it.
\<close>

datatype read_result = Rd_Error | Rd_Data "char list"

definition sys_read :: "read_result \<Rightarrow> char option list \<Rightarrow> nat \<Rightarrow> fault + (int \<times> char option list)" where
  "sys_read r buf count =
     (case r of
        Rd_Error \<Rightarrow> Inr (- 1, buf)
      | Rd_Data d \<Rightarrow>
          (let n = min (length d) count
           in if n \<le> length buf then Inr (int n, map Some (take n d) @ drop n buf)
              else Inl OutOfBounds))"

text \<open>
  \<^verbatim>\<open>strchr(s, c)\<close>: scans from \<open>s\<close> to the terminator; the answer is the offset
  of the first \<open>c\<close>, or \<open>None\<close> for the null pointer.
\<close>

fun strchr :: "char option list \<Rightarrow> char \<Rightarrow> nat \<Rightarrow> fault + nat option" where
  "strchr [] c i = Inl OutOfBounds"
| "strchr (None # bs) c i = Inl Uninitialised"
| "strchr (Some b # bs) c i =
     (if b = c then Inr (Some i)
      else if b = NUL then Inr None
      else strchr bs c (Suc i))"

text \<open>
  \<^verbatim>\<open>strncpy(dest, src, n)\<close> writes exactly \<open>n\<close> bytes: the characters of
  \<open>src\<close> up to its terminator, then null bytes. \<open>strncpy_bytes\<close> is what it
  writes, \<open>strncpy\<close> the destination afterwards.
\<close>

fun strncpy_bytes :: "char option list \<Rightarrow> nat \<Rightarrow> fault + char list" where
  "strncpy_bytes src 0 = Inr []"
| "strncpy_bytes [] (Suc n) = Inl OutOfBounds"
| "strncpy_bytes (None # bs) (Suc n) = Inl Uninitialised"
| "strncpy_bytes (Some b # bs) (Suc n) =
     (if b = NUL then Inr (replicate (Suc n) NUL)
      else and_then (strncpy_bytes bs n) (\<lambda>w. Inr (b # w)))"

definition strncpy :: "char list \<Rightarrow> char option list \<Rightarrow> nat \<Rightarrow> fault + char list" where
  "strncpy dest src n =
     (if length dest < n then Inl OutOfBounds
      else and_then (strncpy_bytes src n) (\<lambda>w. Inr (w @ drop n dest)))"

text \<open>
  The string a \<^verbatim>\<open>%s\<close> conversion prints from a buffer: the characters before the
  first null byte. A buffer without one is read past its end.
\<close>

definition cached :: "char list \<Rightarrow> string" where
  "cached b = takeWhile (\<lambda>c. c \<noteq> NUL) b"

definition c_str :: "char list \<Rightarrow> fault + string" where
  "c_str b = (if NUL \<in> set b then Inr (cached b) else Inl OutOfBounds)"

subsection \<open>Opening a device node\<close>

fun dec_digits :: "nat \<Rightarrow> string" where
  "dec_digits n =
     (if n < 10 then [''0123456789'' ! n]
      else dec_digits (n div 10) @ [''0123456789'' ! (n mod 10)])"

declare dec_digits.simps [simp del]

definition dev_path :: "nat \<Rightarrow> string \<Rightarrow> string" where
  "dev_path sensor_id type = take 63 (''/dev/lunix'' @ dec_digits sensor_id @ ''-'' @ type)"

text \<open>
  \<open>os_open\<close> is what \<^verbatim>\<open>open(path, O_RDONLY | O_NONBLOCK)\<close> answers: a descriptor,
  or -1.
\<close>

definition open_sensor_dev :: "(string \<Rightarrow> int) \<Rightarrow> nat \<Rightarrow> string \<Rightarrow> int" where
  "open_sensor_dev os_open sensor_id type = os_open (dev_path sensor_id type)"

subsection \<open>try\_read\<close>

definition try_read :: "read_result \<Rightarrow> int \<Rightarrow> char list \<Rightarrow> fault + (int \<times> char list)" where
  "try_read r fd buffer =
     (if fd < 0 then Inr (0, buffer)
      else
        and_then (sys_read r (replicate BUF_SIZE None) (BUF_SIZE - 1)) (\<lambda>(bytes, temp_buf).
          if bytes > 0 then
            and_then (store temp_buf (nat bytes) (Some NUL)) (\<lambda>temp_buf.
            and_then (strchr temp_buf NL 0) (\<lambda>newline.
            and_then (case newline of None \<Rightarrow> Inr temp_buf
                      | Some k \<Rightarrow> store temp_buf k (Some NUL)) (\<lambda>temp_buf.
            and_then (strncpy buffer temp_buf BUF_SIZE) (\<lambda>buffer'.
            Inr (1, buffer')))))
          else Inr (0, buffer)))"

text \<open>
  One call \<^verbatim>\<open>try_read(sensors[i].fd_m, sensors[i].val_m)\<close> on the global array: the
  descriptor is passed by value, the buffer by reference.
\<close>

definition poll_channel :: "read_result \<Rightarrow> nat \<Rightarrow> metric \<Rightarrow> sensor_data list \<Rightarrow> fault + (int \<times> sensor_data list)" where
  "poll_channel r i m sensors =
     and_then (load sensors i) (\<lambda>s.
     and_then (try_read r (fd_of m s) (val_of m s)) (\<lambda>(ret, buffer').
     Inr (ret, sensors[i := set_val m buffer' s])))"

definition poll_sensor :: "(metric \<Rightarrow> read_result) \<Rightarrow> nat \<Rightarrow> sensor_data list \<Rightarrow> fault + sensor_data list" where
  "poll_sensor rd i sensors =
     and_then (poll_channel (rd Batt) i Batt sensors) (\<lambda>(_, sensors).
     and_then (poll_channel (rd Temp) i Temp sensors) (\<lambda>(_, sensors).
     and_then (poll_channel (rd Light) i Light sensors) (\<lambda>(_, sensors).
     Inr sensors)))"

definition poll_all :: "(nat \<Rightarrow> metric \<Rightarrow> read_result) \<Rightarrow> sensor_data list \<Rightarrow> fault + sensor_data list" where
  "poll_all rd sensors = for_each (\<lambda>i. poll_sensor (rd i) i) [0..<MAX_SENSORS] sensors"

subsection \<open>Start-up: the global array and the open loop\<close>

text \<open>The array has static storage: every byte of it is zero when \<^verbatim>\<open>main\<close> starts.\<close>

definition zero_sensor :: sensor_data where
  "zero_sensor =
     \<lparr>fd_batt = 0, fd_temp = 0, fd_light = 0,
      val_batt = replicate BUF_SIZE NUL, val_temp = replicate BUF_SIZE NUL,
      val_light = replicate BUF_SIZE NUL\<rparr>"

definition static_sensors :: "sensor_data list" where
  "static_sensors = replicate MAX_SENSORS zero_sensor"

definition clear_val :: "nat \<Rightarrow> metric \<Rightarrow> sensor_data list \<Rightarrow> fault + sensor_data list" where
  "clear_val i m sensors =
     and_then (load sensors i) (\<lambda>s.
     and_then (store (val_of m s) 0 NUL) (\<lambda>b.
     Inr (sensors[i := set_val m b s])))"

definition open_channel :: "(string \<Rightarrow> int) \<Rightarrow> nat \<Rightarrow> metric \<Rightarrow> sensor_data list \<Rightarrow> fault + sensor_data list" where
  "open_channel os_open i m sensors =
     and_then (load sensors i) (\<lambda>s.
     Inr (sensors[i := set_fd m (open_sensor_dev os_open i (metric_name m)) s]))"

definition init_sensor :: "(string \<Rightarrow> int) \<Rightarrow> nat \<Rightarrow> sensor_data list \<Rightarrow> fault + sensor_data list" where
  "init_sensor os_open i sensors =
     and_then (clear_val i Batt sensors) (\<lambda>sensors.
     and_then (clear_val i Temp sensors) (\<lambda>sensors.
     and_then (clear_val i Light sensors) (\<lambda>sensors.
     and_then (open_channel os_open i Batt sensors) (\<lambda>sensors.
     and_then (open_channel os_open i Temp sensors) (\<lambda>sensors.
     open_channel os_open i Light sensors)))))"

definition init_sensors :: "(string \<Rightarrow> int) \<Rightarrow> fault + sensor_data list" where
  "init_sensors os_open = for_each (init_sensor os_open) [0..<MAX_SENSORS] static_sensors"

subsection \<open>The frame\<close>

datatype attr = COLOR_PAIR nat | A_BOLD | A_DIM | A_UNDERLINE

text \<open>
  \<open>Mvprintw y x attrs text\<close>: the text \<^verbatim>\<open>mvprintw(y, x, ...)\<close> puts at row \<open>y\<close>,
  column \<open>x\<close>, under the attributes switched on around the call.
\<close>

datatype draw = Mvprintw nat nat "attr list" string

text \<open>
  The conversions of the format strings: \<^verbatim>\<open>%-Ns\<close> pads on the right up to \<open>N\<close>
  characters and never cuts, \<^verbatim>\<open>%02d\<close> pads a number with a zero up to two digits.
\<close>

definition ljust :: "nat \<Rightarrow> string \<Rightarrow> string" where
  "ljust w s = s @ replicate (w - length s) CHR '' ''"

definition fmt_02d :: "nat \<Rightarrow> string" where
  "fmt_02d n = replicate (2 - length (dec_digits n)) CHR ''0'' @ dec_digits n"

definition fmt_header :: "string \<Rightarrow> string \<Rightarrow> string \<Rightarrow> string \<Rightarrow> string" where
  "fmt_header a b c d = ljust 8 a @ ''  '' @ ljust 12 b @ ''  '' @ ljust 12 c @ ''  '' @ ljust 12 d"

definition fmt_values :: "string \<Rightarrow> string \<Rightarrow> string \<Rightarrow> string" where
  "fmt_values b c d = ljust 12 b @ ''  '' @ ljust 12 c @ ''  '' @ ljust 12 d"

definition sensor_label :: "nat \<Rightarrow> draw" where
  "sensor_label i = Mvprintw (5 + i) 2 [COLOR_PAIR 3] (''Sensor '' @ fmt_02d i)"

text \<open>
  The test \<^verbatim>\<open>fd_batt < 0 || val_batt[0] == '\0'\<close>; the right operand is evaluated
  only when the left one is false.
\<close>

definition is_offline :: "sensor_data \<Rightarrow> fault + bool" where
  "is_offline s =
     (if fd_batt s < 0 then Inr True
      else and_then (load (val_batt s) 0) (\<lambda>c. Inr (c = NUL)))"

definition render_row :: "nat \<Rightarrow> sensor_data \<Rightarrow> fault + draw list" where
  "render_row i s =
     and_then (is_offline s) (\<lambda>off.
       if off then
         Inr [sensor_label i,
              Mvprintw (5 + i) 12 [COLOR_PAIR 4] (fmt_values ''OFFLINE'' ''OFFLINE'' ''OFFLINE'')]
       else
         and_then (c_str (val_batt s)) (\<lambda>b.
         and_then (c_str (val_temp s)) (\<lambda>t.
         and_then (c_str (val_light s)) (\<lambda>l.
         Inr [sensor_label i, Mvprintw (5 + i) 12 [COLOR_PAIR 2] (fmt_values b t l)]))))"

definition frame_title :: draw where
  "frame_title =
     Mvprintw 0 2 [COLOR_PAIR 1, A_BOLD]
       (''Lunix:TNG Sensor Monitor (Press '' @ [CHR 0x27, CHR ''q'', CHR 0x27] @ '' to quit)'')"

definition frame_disclaimer :: draw where
  "frame_disclaimer =
     Mvprintw 1 2 [A_DIM] ''[This version uses Polling - It does not support Wait-Wake]''"

definition frame_header :: draw where
  "frame_header =
     Mvprintw 3 2 [A_UNDERLINE] (fmt_header ''ID'' ''Battery(V)'' ''Temp(C)'' ''Light'')"

definition frame_footer :: draw where
  "frame_footer =
     Mvprintw (5 + MAX_SENSORS + 1) 2 [] ''Status: Active Polling (O_NONBLOCK)...''"

definition render_frame :: "sensor_data list \<Rightarrow> fault + draw list" where
  "render_frame sensors =
     and_then (collect (\<lambda>i. and_then (load sensors i) (render_row i)) [0..<MAX_SENSORS]) (\<lambda>rows.
     Inr ([frame_title, frame_disclaimer, frame_header] @ concat rows @ [frame_footer]))"

subsection \<open>The main loop and the clean-up\<close>

text \<open>
  One cycle's input: the key \<^verbatim>\<open>getch\<close> returns (-1 when none is pending) and
  what each channel's \<^verbatim>\<open>read\<close> would deliver in this cycle.
\<close>

record cycle_input =
  key :: int
  reads :: "nat \<Rightarrow> metric \<Rightarrow> read_result"

definition is_quit :: "int \<Rightarrow> bool" where
  "is_quit ch = (ch = of_char CHR ''q'' \<or> ch = of_char CHR ''Q'')"

datatype phase = Running | Stopped

text \<open>
  What the process does that can be seen from outside, in order: a poll pass, a frame
  put on the screen, the sleep, a descriptor closed, the terminal handed back.
\<close>

datatype event = Polled | Frame "draw list" | Usleep nat | Close int | Endwin

definition close_sensor :: "sensor_data \<Rightarrow> event list" where
  "close_sensor s =
     (if fd_batt s \<ge> 0 then [Close (fd_batt s)] else []) @
     (if fd_temp s \<ge> 0 then [Close (fd_temp s)] else []) @
     (if fd_light s \<ge> 0 then [Close (fd_light s)] else [])"

definition cleanup :: "sensor_data list \<Rightarrow> fault + event list" where
  "cleanup sensors =
     and_then (collect (\<lambda>i. and_then (load sensors i) (\<lambda>s. Inr (close_sensor s))) [0..<MAX_SENSORS]) (\<lambda>cs.
     Inr (concat cs @ [Endwin]))"

text \<open>
  The loop runs on a script of cycle inputs, one per round, and leaves by the
  \<^verbatim>\<open>break\<close> only. A script that ends before a quit key leaves the monitor
  \<open>Running\<close>: what has been observed so far of a loop that goes on.
\<close>

fun main_loop :: "cycle_input list \<Rightarrow> sensor_data list \<Rightarrow> event list \<Rightarrow> fault + (phase \<times> sensor_data list \<times> event list)" where
  "main_loop [] sensors trace = Inr (Running, sensors, trace)"
| "main_loop (c # cs) sensors trace =
     (if is_quit (key c) then Inr (Stopped, sensors, trace)
      else
        and_then (poll_all (reads c) sensors) (\<lambda>sensors.
        and_then (render_frame sensors) (\<lambda>frame.
        main_loop cs sensors (trace @ [Polled, Frame frame, Usleep 100000]))))"

text \<open>
  \<^verbatim>\<open>main\<close>: the open loop, the main loop and, once the loop is left, the clean-up.
\<close>

definition main :: "(string \<Rightarrow> int) \<Rightarrow> cycle_input list \<Rightarrow> fault + (phase \<times> sensor_data list \<times> event list)" where
  "main os_open script =
     and_then (init_sensors os_open) (\<lambda>sensors.
     and_then (main_loop script sensors []) (\<lambda>(ph, sensors, trace).
       case ph of
         Running \<Rightarrow> Inr (Running, sensors, trace)
       | Stopped \<Rightarrow> and_then (cleanup sensors) (\<lambda>closes. Inr (Stopped, sensors, trace @ closes))))"

section \<open>What the specification says, as functions\<close>

text \<open>
  The definitions of this section are not taken from the C file. They say in closed
  form what the specification says a poll stores, what a well-formed array is and
  what a frame shows; the lemmas below prove that the code computes exactly them.
\<close>

text \<open>
  The specification's poll: the text of a reading is the bytes read, at most
  \<open>BUF_SIZE - 1\<close> of them, decoded as a string and cut at the first line break;
  a poll on an unavailable handle, or one whose read returns no bytes, keeps the cached
  value and returns false; any other poll stores the text and returns true.
  \<open>padded s\<close> is the buffer that holds the string \<open>s\<close>.
\<close>

definition first_line :: "char list \<Rightarrow> string" where
  "first_line d = takeWhile (\<lambda>c. c \<noteq> NL) (cached (take (BUF_SIZE - 1) d))"

definition padded :: "string \<Rightarrow> char list" where
  "padded s = s @ replicate (BUF_SIZE - length s) NUL"

definition no_data :: "read_result \<Rightarrow> bool" where
  "no_data r = (case r of Rd_Error \<Rightarrow> True | Rd_Data d \<Rightarrow> d = [])"

definition buffer_after :: "read_result \<Rightarrow> int \<Rightarrow> char list \<Rightarrow> char list" where
  "buffer_after r fd buffer =
     (if fd < 0 then buffer
      else case r of Rd_Error \<Rightarrow> buffer
           | Rd_Data d \<Rightarrow> if d = [] then buffer else padded (first_line d))"

definition ret_after :: "read_result \<Rightarrow> int \<Rightarrow> int" where
  "ret_after r fd = (if fd < 0 \<or> no_data r then 0 else 1)"

text \<open>
  A well-formed buffer has \<open>BUF_SIZE\<close> bytes, one of them null; a well-formed array
  has \<open>MAX_SENSORS\<close> records of three well-formed buffers.
\<close>

definition buf_ok :: "char list \<Rightarrow> bool" where
  "buf_ok b = (length b = BUF_SIZE \<and> NUL \<in> set b)"

definition sensor_ok :: "sensor_data \<Rightarrow> bool" where
  "sensor_ok s = (buf_ok (val_batt s) \<and> buf_ok (val_temp s) \<and> buf_ok (val_light s))"

definition sensors_ok :: "sensor_data list \<Rightarrow> bool" where
  "sensors_ok sensors = (length sensors = MAX_SENSORS \<and> list_all sensor_ok sensors)"

text \<open>A poll pass and the start-up loop, in closed form.\<close>

definition polled :: "(metric \<Rightarrow> read_result) \<Rightarrow> sensor_data \<Rightarrow> sensor_data" where
  "polled rd s =
     s\<lparr>val_batt := buffer_after (rd Batt) (fd_batt s) (val_batt s),
       val_temp := buffer_after (rd Temp) (fd_temp s) (val_temp s),
       val_light := buffer_after (rd Light) (fd_light s) (val_light s)\<rparr>"

definition polled_all :: "(nat \<Rightarrow> metric \<Rightarrow> read_result) \<Rightarrow> sensor_data list \<Rightarrow> sensor_data list" where
  "polled_all rd sensors = map (\<lambda>i. polled (rd i) (sensors ! i)) [0..<length sensors]"

definition opened :: "(string \<Rightarrow> int) \<Rightarrow> nat \<Rightarrow> sensor_data" where
  "opened os_open i =
     \<lparr>fd_batt = open_sensor_dev os_open i ''batt'',
      fd_temp = open_sensor_dev os_open i ''temp'',
      fd_light = open_sensor_dev os_open i ''light'',
      val_batt = replicate BUF_SIZE NUL, val_temp = replicate BUF_SIZE NUL,
      val_light = replicate BUF_SIZE NUL\<rparr>"

text \<open>
  The derived status of the specification and the frame it asks for: one row per
  sensor, the marker in every value column of an Offline row, the cached values in
  an Online row.
\<close>

definition offline :: "sensor_data \<Rightarrow> bool" where
  "offline s = (fd_batt s < 0 \<or> cached (val_batt s) = [])"

definition offline_values :: "nat \<Rightarrow> draw" where
  "offline_values i = Mvprintw (5 + i) 12 [COLOR_PAIR 4] (fmt_values ''OFFLINE'' ''OFFLINE'' ''OFFLINE'')"

definition online_values :: "nat \<Rightarrow> sensor_data \<Rightarrow> draw" where
  "online_values i s =
     Mvprintw (5 + i) 12 [COLOR_PAIR 2]
       (fmt_values (cached (val_batt s)) (cached (val_temp s)) (cached (val_light s)))"

definition row_of :: "nat \<Rightarrow> sensor_data \<Rightarrow> draw list" where
  "row_of i s = [sensor_label i, if offline s then offline_values i else online_values i s]"

definition frame_of :: "sensor_data list \<Rightarrow> draw list" where
  "frame_of sensors =
     [frame_title, frame_disclaimer, frame_header]
     @ concat (map (\<lambda>i. row_of i (sensors ! i)) [0..<MAX_SENSORS]) @ [frame_footer]"

definition row_values :: "sensor_data list \<Rightarrow> draw list" where
  "row_values sensors =
     map (\<lambda>i. if offline (sensors ! i) then offline_values i else online_values i (sensors ! i))
       [0..<MAX_SENSORS]"

text \<open>
  A reading with a text that is not empty; the events of the rounds that drew the given
  frames; the descriptors the start-up loop asked for, in the order of the calls.
\<close>

definition has_text :: "read_result \<Rightarrow> bool" where
  "has_text r = (case r of Rd_Error \<Rightarrow> False | Rd_Data d \<Rightarrow> d \<noteq> [] \<and> hd d \<noteq> NL \<and> hd d \<noteq> NUL)"

definition cycle_events :: "draw list list \<Rightarrow> event list" where
  "cycle_events frames = concat (map (\<lambda>f. [Polled, Frame f, Usleep 100000]) frames)"

definition opened_fds :: "(string \<Rightarrow> int) \<Rightarrow> int list" where
  "opened_fds os_open =
     concat (map (\<lambda>i. [open_sensor_dev os_open i ''batt'', open_sensor_dev os_open i ''temp'',
                        open_sensor_dev os_open i ''light'']) [0..<MAX_SENSORS])"

section \<open>The code computes what the specification says\<close>

subsection \<open>The string routines on a terminated buffer\<close>

lemma and_then_Inr [simp]: "and_then (Inr x) f = f x"
  by (simp add: and_then_def)

lemma and_then_Inl [simp]: "and_then (Inl e) f = Inl e"
  by (simp add: and_then_def)

lemma takeWhile_twice: "takeWhile P (takeWhile Q xs) = takeWhile (\<lambda>x. P x \<and> Q x) xs"
  by (induction xs) auto

lemma strchr_found:
  "\<forall>x\<in>set p. x \<noteq> NL \<and> x \<noteq> NUL \<Longrightarrow>
   strchr (map Some p @ Some NL # rest) NL i = Inr (Some (i + length p))"
  by (induction p arbitrary: i) auto

lemma strchr_none:
  "\<forall>x\<in>set p. x \<noteq> NL \<and> x \<noteq> NUL \<Longrightarrow>
   strchr (map Some p @ Some NUL # rest) NL i = Inr None"
  by (induction p arbitrary: i) auto

lemma strncpy_bytes_text:
  "\<forall>x\<in>set p. x \<noteq> NUL \<Longrightarrow> length p < n \<Longrightarrow>
   strncpy_bytes (map Some p @ Some NUL # rest) n = Inr (p @ replicate (n - length p) NUL)"
proof (induction p arbitrary: n)
  case Nil
  then show ?case by (cases n) auto
next
  case (Cons a p)
  then show ?case by (cases n) auto
qed

text \<open>The three statements after the terminator is stored, on a buffer that holds
  the bytes \<open>xs\<close> and the terminator.\<close>

lemma scan_and_copy:
  fixes xs :: "char list" and rest :: "char option list"
  assumes n: "length xs < n"
    and tb: "tb = map Some xs @ Some NUL # rest"
  shows "and_then (strchr tb NL 0) (\<lambda>newline.
         and_then (case newline of None \<Rightarrow> Inr tb | Some k \<Rightarrow> store tb k (Some NUL)) (\<lambda>tb'.
         strncpy_bytes tb' n))
         = Inr (takeWhile (\<lambda>c. c \<noteq> NL \<and> c \<noteq> NUL) xs
                @ replicate (n - length (takeWhile (\<lambda>c. c \<noteq> NL \<and> c \<noteq> NUL) xs)) NUL)"
proof -
  let ?P = "\<lambda>c. c \<noteq> NL \<and> c \<noteq> NUL"
  define p where "p = takeWhile ?P xs"
  define q where "q = dropWhile ?P xs"
  have xs: "xs = p @ q" by (simp add: p_def q_def)
  have pP: "\<forall>x\<in>set p. x \<noteq> NL \<and> x \<noteq> NUL"
    unfolding p_def by (auto dest: set_takeWhileD)
  have pN: "\<forall>x\<in>set p. x \<noteq> NUL" using pP by simp
  have lp: "length p < n" using n xs by simp
  have "and_then (strchr tb NL 0) (\<lambda>newline.
         and_then (case newline of None \<Rightarrow> Inr tb | Some k \<Rightarrow> store tb k (Some NUL)) (\<lambda>tb'.
         strncpy_bytes tb' n)) = Inr (p @ replicate (n - length p) NUL)"
  proof (cases q)
    case Nil
    then have tb': "tb = map Some p @ Some NUL # rest" by (simp add: tb xs)
    show ?thesis
      by (simp add: tb' strchr_none [OF pP] strncpy_bytes_text [OF pN lp])
  next
    case (Cons c q')
    have "\<not> ?P (hd q)" unfolding q_def
      using Cons hd_dropWhile [of ?P xs] by (simp add: q_def)
    then have c: "c = NL \<or> c = NUL" using Cons by auto
    have tb': "tb = map Some p @ Some c # (map Some q' @ Some NUL # rest)"
      by (simp add: tb xs Cons)
    from c show ?thesis
    proof
      assume "c = NL"
      then show ?thesis
        by (simp add: tb' strchr_found [OF pP] store_def list_update_append
            strncpy_bytes_text [OF pN lp])
    next
      assume "c = NUL"
      then show ?thesis
        by (simp add: tb' strchr_none [OF pP] strncpy_bytes_text [OF pN lp])
    qed
  qed
  then show ?thesis by (simp only: p_def)
qed

subsection \<open>A poll of one channel\<close>

lemma first_line_alt:
  "first_line d = takeWhile (\<lambda>c. c \<noteq> NL \<and> c \<noteq> NUL) (take (BUF_SIZE - 1) d)"
  by (simp add: first_line_def cached_def takeWhile_twice)

lemma length_first_line: "length (first_line d) \<le> BUF_SIZE - 1"
proof -
  have "length (first_line d) \<le> length (take (BUF_SIZE - 1) d)"
    unfolding first_line_alt by (rule length_takeWhile_le)
  then show ?thesis by simp
qed

lemma try_read_data:
  assumes fd: "0 \<le> fd" and d: "d \<noteq> []" and len: "BUF_SIZE \<le> length buffer"
  shows "try_read (Rd_Data d) fd buffer = Inr (1, padded (first_line d) @ drop BUF_SIZE buffer)"
proof -
  define xs where "xs = take (BUF_SIZE - 1) d"
  define rest :: "char option list" where "rest = replicate (BUF_SIZE - length xs - 1) None"
  define tb where "tb = map Some xs @ Some NUL # rest"
  have lx: "length xs = min (length d) (BUF_SIZE - 1)" by (simp add: xs_def)
  have pos: "0 < length xs" using d by (cases d) (simp_all add: lx BUF_SIZE_def)
  have lt: "length xs < BUF_SIZE" by (simp add: lx BUF_SIZE_def)
  have tk: "take (min (length d) (BUF_SIZE - 1)) d = xs"
    by (simp add: xs_def min_def)
  have le: "min (length d) (BUF_SIZE - 1) \<le> length (replicate BUF_SIZE (None :: char option))"
    by simp
  have rep: "drop (length xs) (replicate BUF_SIZE (None :: char option)) = None # rest"
    using lt by (cases "BUF_SIZE - length xs") (simp_all add: rest_def)
  have rd: "sys_read (Rd_Data d) (replicate BUF_SIZE None) (BUF_SIZE - 1)
            = Inr (int (length xs), map Some xs @ None # rest)"
    unfolding sys_read_def read_result.case Let_def tk
    using le rep by (simp only: lx [symmetric] if_True)
  have st: "store (map Some xs @ None # rest) (length xs) (Some NUL) = Inr tb"
    by (simp add: store_def list_update_append tb_def)
  have pf: "padded (first_line d)
            = takeWhile (\<lambda>c. c \<noteq> NL \<and> c \<noteq> NUL) xs
              @ replicate (BUF_SIZE - length (takeWhile (\<lambda>c. c \<noteq> NL \<and> c \<noteq> NUL) xs)) NUL"
    by (simp add: padded_def first_line_alt xs_def)
  have sc: "and_then (strchr tb NL 0) (\<lambda>newline.
         and_then (case newline of None \<Rightarrow> Inr tb | Some k \<Rightarrow> store tb k (Some NUL)) (\<lambda>tb'.
         strncpy_bytes tb' BUF_SIZE)) = Inr (padded (first_line d))"
    by (simp only: pf scan_and_copy [OF lt tb_def])
  have "try_read (Rd_Data d) fd buffer =
        and_then (strchr tb NL 0) (\<lambda>newline.
         and_then (case newline of None \<Rightarrow> Inr tb | Some k \<Rightarrow> store tb k (Some NUL)) (\<lambda>tb'.
         and_then (strncpy buffer tb' BUF_SIZE) (\<lambda>b'. Inr (1, b'))))"
    unfolding try_read_def rd using fd pos by (simp add: st)
  also have "\<dots> = Inr (1, padded (first_line d) @ drop BUF_SIZE buffer)"
    using sc len
    by (auto simp: and_then_def strncpy_def split: sum.splits option.splits)
  finally show ?thesis .
qed

lemma load_in [simp]: "i < length xs \<Longrightarrow> load xs i = Inr (xs ! i)"
  by (simp add: load_def)

lemma try_read_unavailable: "fd < 0 \<Longrightarrow> try_read r fd buffer = Inr (0, buffer)"
  by (simp add: try_read_def)

lemma sys_read_no_data:
  "no_data r \<Longrightarrow> \<exists>n tb. sys_read r buf count = Inr (n, tb) \<and> n \<le> 0"
  by (cases r) (simp_all add: no_data_def sys_read_def)

lemma try_read_no_data: "no_data r \<Longrightarrow> try_read r fd buffer = Inr (0, buffer)"
proof -
  assume "no_data r"
  then obtain n tb where "sys_read r (replicate BUF_SIZE None) (BUF_SIZE - 1) = Inr (n, tb)" "n \<le> 0"
    using sys_read_no_data by blast
  then show ?thesis unfolding try_read_def by simp
qed

lemma try_read_eq:
  assumes "length buffer = BUF_SIZE"
  shows "try_read r fd buffer = Inr (ret_after r fd, buffer_after r fd buffer)"
proof (cases "fd < 0 \<or> no_data r")
  case True
  then have "try_read r fd buffer = Inr (0, buffer)"
    using try_read_unavailable try_read_no_data by blast
  moreover have "buffer_after r fd buffer = buffer"
    using True by (auto simp: buffer_after_def no_data_def split: read_result.splits)
  ultimately show ?thesis using True by (simp add: ret_after_def)
next
  case False
  then obtain d where r: "r = Rd_Data d" and d: "d \<noteq> []" and fd: "0 \<le> fd"
    by (cases r) (auto simp: no_data_def)
  have "try_read r fd buffer = Inr (1, padded (first_line d) @ drop BUF_SIZE buffer)"
    unfolding r using try_read_data [OF fd d] assms by simp
  then show ?thesis using False r d fd assms
    by (simp add: ret_after_def buffer_after_def)
qed

lemma length_padded: "length s \<le> BUF_SIZE \<Longrightarrow> length (padded s) = BUF_SIZE"
  by (simp add: padded_def)

lemma buf_ok_padded: "buf_ok (padded (first_line d))"
proof -
  have l: "length (first_line d) \<le> BUF_SIZE - 1" by (rule length_first_line)
  have "0 < BUF_SIZE" by (simp add: BUF_SIZE_def)
  with l have "0 < BUF_SIZE - length (first_line d)" by arith
  then have "NUL \<in> set (padded (first_line d))" by (simp add: padded_def)
  moreover have "length (padded (first_line d)) = BUF_SIZE"
    using l by (simp add: padded_def)
  ultimately show ?thesis by (simp add: buf_ok_def)
qed

lemma buf_ok_after: "buf_ok b \<Longrightarrow> buf_ok (buffer_after r fd b)"
  by (auto simp: buffer_after_def buf_ok_padded split: read_result.splits)

lemma NUL_notin_first_line: "NUL \<notin> set (first_line d)"
  unfolding first_line_alt by (auto dest: set_takeWhileD)

lemma NL_notin_first_line: "NL \<notin> set (first_line d)"
  unfolding first_line_alt by (auto dest: set_takeWhileD)

lemma cached_text: "NUL \<notin> set s \<Longrightarrow> cached (s @ NUL # rest) = s"
  by (induction s) (auto simp: cached_def)

lemma cached_padded: "cached (padded (first_line d)) = first_line d"
proof -
  have l: "length (first_line d) \<le> BUF_SIZE - 1" by (rule length_first_line)
  have "0 < BUF_SIZE" by (simp add: BUF_SIZE_def)
  with l obtain k where k: "BUF_SIZE - length (first_line d) = Suc k"
    by (cases "BUF_SIZE - length (first_line d)") auto
  show ?thesis
    using cached_text [OF NUL_notin_first_line] by (simp add: padded_def k)
qed

lemma NL_notin_padded: "NL \<notin> set (padded (first_line d))"
  using NL_notin_first_line by (auto simp: padded_def)

lemma c_str_ok: "buf_ok b \<Longrightarrow> c_str b = Inr (cached b)"
  by (simp add: c_str_def buf_ok_def)

lemma length_cached: "buf_ok b \<Longrightarrow> length (cached b) \<le> BUF_SIZE - 1"
proof -
  assume ok: "buf_ok b"
  then have "NUL \<in> set b" by (simp add: buf_ok_def)
  then have "length (takeWhile (\<lambda>c. c \<noteq> NUL) b) < length b"
    by (induction b) auto
  then show ?thesis using ok by (simp add: cached_def buf_ok_def)
qed

subsection \<open>The poll pass\<close>

lemma poll_channel_eq:
  assumes "i < length sensors" and "length (val_of m (sensors ! i)) = BUF_SIZE"
  shows "poll_channel r i m sensors =
         Inr (ret_after r (fd_of m (sensors ! i)),
              sensors[i := set_val m (buffer_after r (fd_of m (sensors ! i)) (val_of m (sensors ! i))) (sensors ! i)])"
  using assms by (simp add: poll_channel_def try_read_eq)

lemma poll_sensor_eq:
  assumes i: "i < length sensors" and ok: "sensor_ok (sensors ! i)"
  shows "poll_sensor rd i sensors = Inr (sensors[i := polled rd (sensors ! i)])"
proof -
  let ?s = "sensors ! i"
  from ok have l: "length (val_batt ?s) = BUF_SIZE" "length (val_temp ?s) = BUF_SIZE"
    "length (val_light ?s) = BUF_SIZE"
    by (simp_all add: sensor_ok_def buf_ok_def)
  show ?thesis
    using i l by (simp add: poll_sensor_def poll_channel_eq polled_def)
qed

text \<open>A loop whose round \<open>i\<close> rewrites element \<open>i\<close> only.\<close>

lemma for_each_append:
  "for_each f (xs @ ys) s = and_then (for_each f xs s) (for_each f ys)"
  by (induction xs arbitrary: s) (auto simp: and_then_def split: sum.splits)

lemma for_each_upt:
  assumes step: "\<And>i xs. i < length xs \<Longrightarrow> Q (xs ! i) \<Longrightarrow> f i xs = Inr (xs[i := g i (xs ! i)])"
    and Q: "\<forall>x\<in>set xs. Q x"
    and n: "n \<le> length xs"
  shows "for_each f [0..<n] xs =
         Inr (map (\<lambda>j. if j < n then g j (xs ! j) else xs ! j) [0..<length xs])"
  using n
proof (induction n)
  case 0
  show ?case by (simp add: map_nth)
next
  case (Suc n)
  let ?ys = "map (\<lambda>j. if j < n then g j (xs ! j) else xs ! j) [0..<length xs]"
  have n: "n < length xs" using Suc.prems by simp
  have prev: "for_each f [0..<n] xs = Inr ?ys" using Suc by simp
  have at: "?ys ! n = xs ! n" using n by simp
  have "Q (?ys ! n)" using Q n at by simp
  then have "f n ?ys = Inr (?ys[n := g n (?ys ! n)])"
    using step [of n ?ys] n by simp
  moreover have "?ys[n := g n (?ys ! n)] =
      map (\<lambda>j. if j < Suc n then g j (xs ! j) else xs ! j) [0..<length xs]"
    using n by (auto intro!: nth_equalityI simp: nth_list_update less_Suc_eq)
  ultimately show ?case
    by (simp add: for_each_append prev)
qed

lemma poll_all_eq:
  assumes "sensors_ok sensors"
  shows "poll_all rd sensors = Inr (polled_all rd sensors)"
proof -
  have len: "length sensors = MAX_SENSORS" and all: "\<forall>s\<in>set sensors. sensor_ok s"
    using assms by (simp_all add: sensors_ok_def list_all_iff)
  have "for_each (\<lambda>i. poll_sensor (rd i) i) [0..<MAX_SENSORS] sensors =
        Inr (map (\<lambda>j. if j < MAX_SENSORS then polled (rd j) (sensors ! j) else sensors ! j)
               [0..<length sensors])"
    by (rule for_each_upt [where Q = sensor_ok]) (simp_all add: poll_sensor_eq all len)
  then show ?thesis
    by (simp add: poll_all_def polled_all_def len cong: map_cong)
qed

lemma sensor_ok_polled: "sensor_ok s \<Longrightarrow> sensor_ok (polled rd s)"
  by (simp add: sensor_ok_def polled_def buf_ok_after)

lemma sensors_ok_polled_all: "sensors_ok sensors \<Longrightarrow> sensors_ok (polled_all rd sensors)"
  by (auto simp: sensors_ok_def polled_all_def list_all_iff sensor_ok_polled)

lemma polled_all_nth:
  "i < length sensors \<Longrightarrow> polled_all rd sensors ! i = polled (rd i) (sensors ! i)"
  by (simp add: polled_all_def)

lemma length_polled_all: "length (polled_all rd sensors) = length sensors"
  by (simp add: polled_all_def)

subsection \<open>Start-up\<close>

lemma BUF_SIZE_pos: "0 < BUF_SIZE"
  by (simp add: BUF_SIZE_def)

lemma store_zero_replicate: "store (replicate BUF_SIZE NUL) 0 NUL = Inr (replicate BUF_SIZE NUL)"
proof -
  have "(replicate BUF_SIZE NUL)[0 := NUL] = replicate BUF_SIZE NUL"
    by (rule nth_equalityI) (simp_all add: nth_list_update)
  then show ?thesis using BUF_SIZE_pos by (simp add: store_def)
qed

lemma init_sensor_eq:
  assumes "i < length xs" and "xs ! i = zero_sensor"
  shows "init_sensor os_open i xs = Inr (xs[i := opened os_open i])"
  using assms
  by (simp add: init_sensor_def clear_val_def open_channel_def zero_sensor_def
      store_zero_replicate opened_def)

lemma init_sensors_eq: "init_sensors os_open = Inr (map (opened os_open) [0..<MAX_SENSORS])"
proof -
  have "for_each (init_sensor os_open) [0..<MAX_SENSORS] static_sensors =
        Inr (map (\<lambda>j. if j < MAX_SENSORS then opened os_open j else static_sensors ! j)
               [0..<length static_sensors])"
    by (rule for_each_upt [where Q = "\<lambda>s. s = zero_sensor"])
       (simp_all add: init_sensor_eq static_sensors_def)
  then show ?thesis
    by (simp add: init_sensors_def static_sensors_def cong: map_cong)
qed

lemma buf_ok_zero: "buf_ok (replicate BUF_SIZE NUL)"
  using BUF_SIZE_pos by (simp add: buf_ok_def)

lemma sensor_ok_opened: "sensor_ok (opened os_open i)"
  by (simp add: sensor_ok_def opened_def buf_ok_zero)

lemma sensors_ok_opened: "sensors_ok (map (opened os_open) [0..<MAX_SENSORS])"
  by (simp add: sensors_ok_def list_all_iff sensor_ok_opened)

subsection \<open>The frame and the clean-up\<close>

lemma cached_empty_iff: "b \<noteq> [] \<Longrightarrow> (cached b = []) = (b ! 0 = NUL)"
  by (cases b) (auto simp: cached_def)

lemma is_offline_eq: "val_batt s \<noteq> [] \<Longrightarrow> is_offline s = Inr (offline s)"
  by (auto simp: is_offline_def offline_def cached_empty_iff)

lemma buf_ok_nonempty: "buf_ok b \<Longrightarrow> b \<noteq> []"
  by (auto simp: buf_ok_def)

lemma render_row_eq: "sensor_ok s \<Longrightarrow> render_row i s = Inr (row_of i s)"
  by (simp add: render_row_def sensor_ok_def is_offline_eq buf_ok_nonempty c_str_ok
      row_of_def offline_values_def online_values_def)

lemma collect_eq: "\<forall>x\<in>set xs. f x = Inr (g x) \<Longrightarrow> collect f xs = Inr (map g xs)"
  by (induction xs) simp_all

lemma render_frame_eq: "sensors_ok sensors \<Longrightarrow> render_frame sensors = Inr (frame_of sensors)"
proof -
  assume ok: "sensors_ok sensors"
  then have len: "length sensors = MAX_SENSORS" and all: "\<forall>s\<in>set sensors. sensor_ok s"
    by (simp_all add: sensors_ok_def list_all_iff)
  have "collect (\<lambda>i. and_then (load sensors i) (render_row i)) [0..<MAX_SENSORS]
        = Inr (map (\<lambda>i. row_of i (sensors ! i)) [0..<MAX_SENSORS])"
    by (rule collect_eq) (simp add: len all render_row_eq)
  then show ?thesis by (simp add: render_frame_def frame_of_def)
qed

lemma cleanup_eq:
  assumes "length sensors = MAX_SENSORS"
  shows "cleanup sensors = Inr (concat (map close_sensor sensors) @ [Endwin])"
proof -
  have "collect (\<lambda>i. and_then (load sensors i) (\<lambda>s. Inr (close_sensor s))) [0..<MAX_SENSORS]
        = Inr (map (\<lambda>i. close_sensor (sensors ! i)) [0..<MAX_SENSORS])"
    by (rule collect_eq) (simp add: assms)
  moreover have "map (\<lambda>i. close_sensor (sensors ! i)) [0..<MAX_SENSORS] = map close_sensor sensors"
    unfolding assms [symmetric] by (rule nth_equalityI) simp_all
  ultimately show ?thesis by (simp add: cleanup_def)
qed

subsection \<open>The main loop\<close>

lemma main_loop_quit: "is_quit (key c) \<Longrightarrow> main_loop (c # cs) sensors trace = Inr (Stopped, sensors, trace)"
  by simp

lemma main_loop_cycle:
  assumes "sensors_ok sensors" and "\<not> is_quit (key c)"
  shows "main_loop (c # cs) sensors trace =
         main_loop cs (polled_all (reads c) sensors)
           (trace @ [Polled, Frame (frame_of (polled_all (reads c) sensors)), Usleep 100000])"
  using assms by (simp add: poll_all_eq render_frame_eq sensors_ok_polled_all)

text \<open>The invariant rule of the loop: a property of the array and the trace that every
  round keeps holds when the loop is left, or when the script ends.\<close>

lemma main_loop_invariant:
  assumes ok: "sensors_ok sensors" and R: "R sensors trace"
    and step: "\<And>ss tr c. sensors_ok ss \<Longrightarrow> R ss tr \<Longrightarrow> c \<in> set script \<Longrightarrow> \<not> is_quit (key c) \<Longrightarrow>
       R (polled_all (reads c) ss) (tr @ [Polled, Frame (frame_of (polled_all (reads c) ss)), Usleep 100000])"
  shows "\<exists>ph sensors' trace'. main_loop script sensors trace = Inr (ph, sensors', trace')
           \<and> sensors_ok sensors' \<and> R sensors' trace'
           \<and> (ph = Running) = (\<forall>c\<in>set script. \<not> is_quit (key c))"
  using ok R step
proof (induction script arbitrary: sensors trace)
  case Nil
  then show ?case by simp
next
  case (Cons c cs)
  show ?case
  proof (cases "is_quit (key c)")
    case True
    then show ?thesis using Cons.prems(1,2) by auto
  next
    case False
    let ?ss = "polled_all (reads c) sensors"
    let ?tr = "trace @ [Polled, Frame (frame_of ?ss), Usleep 100000]"
    have ok': "sensors_ok ?ss" using Cons.prems(1) by (rule sensors_ok_polled_all)
    have R': "R ?ss ?tr" using Cons.prems(1,2) False by (intro Cons.prems(3)) simp_all
    have "\<exists>ph sensors' trace'. main_loop cs ?ss ?tr = Inr (ph, sensors', trace')
           \<and> sensors_ok sensors' \<and> R sensors' trace'
           \<and> (ph = Running) = (\<forall>c\<in>set cs. \<not> is_quit (key c))"
      using ok' R' by (rule Cons.IH) (simp add: Cons.prems(3))
    then show ?thesis
      unfolding main_loop_cycle [OF Cons.prems(1) False] using False by simp
  qed
qed

lemma main_loop_after_quit:
  assumes "main_loop pre sensors trace = Inr (Running, sensors', trace')" and "is_quit (key q)"
  shows "main_loop (pre @ q # post) sensors trace = Inr (Stopped, sensors', trace')"
  using assms
proof (induction pre arbitrary: sensors trace)
  case Nil
  then show ?case by simp
next
  case (Cons c cs)
  then show ?case
    by (auto simp: and_then_def split: if_splits sum.splits)
qed

subsection \<open>Further facts about polls, frames and runs\<close>

lemma fd_of_polled [simp]: "fd_of m (polled rd s) = fd_of m s"
  by (cases m) (simp_all add: polled_def)

lemma val_of_polled: "val_of m (polled rd s) = buffer_after (rd m) (fd_of m s) (val_of m s)"
  by (cases m) (simp_all add: polled_def)

lemma buffer_after_same: "fd < 0 \<or> no_data r \<Longrightarrow> buffer_after r fd b = b"
  by (auto simp: buffer_after_def no_data_def split: read_result.splits)

lemma sensors_ok_length: "sensors_ok sensors \<Longrightarrow> length sensors = MAX_SENSORS"
  by (simp add: sensors_ok_def)

lemma sensors_ok_nth: "sensors_ok sensors \<Longrightarrow> i < MAX_SENSORS \<Longrightarrow> sensor_ok (sensors ! i)"
  by (simp add: sensors_ok_def list_all_length)

lemma sensor_ok_val: "sensor_ok s \<Longrightarrow> buf_ok (val_of m s)"
  by (cases m) (simp_all add: sensor_ok_def)

lemma BUF_SIZE_gt1: "1 < BUF_SIZE"
  by (simp add: BUF_SIZE_def)

lemma sys_read_bytes:
  "sys_read r (replicate BUF_SIZE None) (BUF_SIZE - 1) = Inr (bytes, tb) \<Longrightarrow>
   (bytes \<le> 0) = no_data r \<and> - 1 \<le> bytes \<and> bytes \<le> int (BUF_SIZE - 1) \<and> length tb = BUF_SIZE"
  using BUF_SIZE_gt1
  by (cases r) (auto simp: sys_read_def no_data_def Let_def min_def split: if_splits)

lemma sys_read_total:
  "\<exists>bytes tb. sys_read r (replicate BUF_SIZE None) (BUF_SIZE - 1) = Inr (bytes, tb)"
  by (cases r) (auto simp: sys_read_def Let_def min_def)

lemma main_invariant:
  assumes R0: "R (map (opened os_open) [0..<MAX_SENSORS]) []"
    and step: "\<And>ss tr c. sensors_ok ss \<Longrightarrow> R ss tr \<Longrightarrow> c \<in> set script \<Longrightarrow> \<not> is_quit (key c) \<Longrightarrow>
       R (polled_all (reads c) ss) (tr @ [Polled, Frame (frame_of (polled_all (reads c) ss)), Usleep 100000])"
  shows "\<exists>ph sensors trace.
           main_loop script (map (opened os_open) [0..<MAX_SENSORS]) [] = Inr (ph, sensors, trace)
           \<and> sensors_ok sensors \<and> R sensors trace
           \<and> (ph = Running) = (\<forall>c\<in>set script. \<not> is_quit (key c))
           \<and> main os_open script =
               Inr (ph, sensors,
                    if ph = Running then trace
                    else trace @ concat (map close_sensor sensors) @ [Endwin])"
proof -
  obtain ph sensors trace where
    run: "main_loop script (map (opened os_open) [0..<MAX_SENSORS]) [] = Inr (ph, sensors, trace)"
    and ok: "sensors_ok sensors" and R: "R sensors trace"
    and ph: "(ph = Running) = (\<forall>c\<in>set script. \<not> is_quit (key c))"
    using main_loop_invariant [OF sensors_ok_opened, of R os_open "[]" script] R0 step
    by blast
  have "main os_open script =
          Inr (ph, sensors,
               if ph = Running then trace
               else trace @ concat (map close_sensor sensors) @ [Endwin])"
    using ok by (cases ph) (simp_all add: main_def init_sensors_eq run cleanup_eq sensors_ok_length)
  then show ?thesis using run ok R ph by blast
qed

lemma set_cached: "set (cached b) \<subseteq> set b"
  by (auto simp: cached_def dest: set_takeWhileD)

lemma NL_buffer_after: "NL \<notin> set b \<Longrightarrow> NL \<notin> set (buffer_after r fd b)"
  by (auto simp: buffer_after_def NL_notin_padded split: read_result.splits)

lemma first_line_example: "first_line (''3.7'' @ NL # ''stray'') = ''3.7''"
  by (simp add: first_line_alt BUF_SIZE_def)

lemma val_of_set_val: "val_of m' (set_val m b s) = (if m' = m then b else val_of m' s)"
  by (cases m; cases m') simp_all

lemma fd_of_set_val [simp]: "fd_of m' (set_val m b s) = fd_of m' s"
  by (cases m; cases m') simp_all

lemma sensor_ok_set_val: "sensor_ok s \<Longrightarrow> buf_ok b \<Longrightarrow> sensor_ok (set_val m b s)"
  by (cases m) (simp_all add: sensor_ok_def)

lemma sensors_ok_update:
  "sensors_ok sensors \<Longrightarrow> sensor_ok s \<Longrightarrow> sensors_ok (sensors[i := s])"
  by (auto simp: sensors_ok_def list_all_iff dest: set_update_subset_insert [THEN subsetD])

lemma length_buffer_after: "length b = BUF_SIZE \<Longrightarrow> length (buffer_after r fd b) = BUF_SIZE"
  using buf_ok_padded by (auto simp: buffer_after_def buf_ok_def split: read_result.splits)

lemma NUL_buffer_after: "NUL \<in> set b \<Longrightarrow> NUL \<in> set (buffer_after r fd b)"
  using buf_ok_padded by (auto simp: buffer_after_def buf_ok_def split: read_result.splits)

lemma first_line_take: "first_line (take (BUF_SIZE - 1) d) = first_line d"
  by (simp add: first_line_def)

lemma fmt_values_offline:
  "fmt_values ''OFFLINE'' ''OFFLINE'' ''OFFLINE'' = ''OFFLINE       OFFLINE       OFFLINE     ''"
  by code_simp

lemma frame_of_rows:
  "frame_of sensors =
     [frame_title, frame_disclaimer, frame_header]
     @ concat (map (\<lambda>i. [sensor_label i, row_values sensors ! i]) [0..<MAX_SENSORS])
     @ [frame_footer]"
proof -
  have "map (\<lambda>i. row_of i (sensors ! i)) [0..<MAX_SENSORS]
        = map (\<lambda>i. [sensor_label i, row_values sensors ! i]) [0..<MAX_SENSORS]"
    by (rule map_cong [OF refl]) (simp add: row_values_def row_of_def)
  then show ?thesis by (simp only: frame_of_def)
qed

lemma length_row_values: "length (row_values sensors) = MAX_SENSORS"
  by (simp add: row_values_def)

lemma row_values_offline:
  "i < MAX_SENSORS \<Longrightarrow> fd_batt (sensors ! i) < 0 \<Longrightarrow> row_values sensors ! i = offline_values i"
  by (simp add: row_values_def offline_def)

lemma no_frame_in_closes: "Frame f \<notin> set (concat (map close_sensor sensors))"
  by (auto simp: close_sensor_def split: if_splits)

lemma fd_batt_polled_all:
  "\<forall>s\<in>set sensors. fd_batt s < 0 \<Longrightarrow> \<forall>s\<in>set (polled_all rd sensors). fd_batt s < 0"
  by (auto simp: polled_all_def polled_def)

lemma sensor_labels:
  "map sensor_label [0..<MAX_SENSORS] =
     [Mvprintw 5 2 [COLOR_PAIR 3] ''Sensor 00'', Mvprintw 6 2 [COLOR_PAIR 3] ''Sensor 01'',
      Mvprintw 7 2 [COLOR_PAIR 3] ''Sensor 02'', Mvprintw 8 2 [COLOR_PAIR 3] ''Sensor 03'',
      Mvprintw 9 2 [COLOR_PAIR 3] ''Sensor 04'', Mvprintw 10 2 [COLOR_PAIR 3] ''Sensor 05'',
      Mvprintw 11 2 [COLOR_PAIR 3] ''Sensor 06'', Mvprintw 12 2 [COLOR_PAIR 3] ''Sensor 07'',
      Mvprintw 13 2 [COLOR_PAIR 3] ''Sensor 08'', Mvprintw 14 2 [COLOR_PAIR 3] ''Sensor 09'',
      Mvprintw 15 2 [COLOR_PAIR 3] ''Sensor 10'', Mvprintw 16 2 [COLOR_PAIR 3] ''Sensor 11'',
      Mvprintw 17 2 [COLOR_PAIR 3] ''Sensor 12'', Mvprintw 18 2 [COLOR_PAIR 3] ''Sensor 13'',
      Mvprintw 19 2 [COLOR_PAIR 3] ''Sensor 14'', Mvprintw 20 2 [COLOR_PAIR 3] ''Sensor 15'']"
  by code_simp

lemma main_one_cycle:
  assumes "\<not> is_quit (key c)"
  shows "main os_open [c] =
         Inr (Running, polled_all (reads c) (map (opened os_open) [0..<MAX_SENSORS]),
              [Polled, Frame (frame_of (polled_all (reads c) (map (opened os_open) [0..<MAX_SENSORS]))),
               Usleep 100000])"
  unfolding main_def init_sensors_eq and_then_Inr main_loop_cycle [OF sensors_ok_opened assms]
  by simp

lemma no_key_is_not_quit: "\<not> is_quit (- 1)"
  by (simp add: is_quit_def)

lemma length_ljust: "length (ljust w s) = max w (length s)"
  by (simp add: ljust_def max_def)

lemma length_fmt_02d: "n < 100 \<Longrightarrow> length (fmt_02d n) = 2"
proof (cases "n < 10")
  case True
  then have "dec_digits n = [''0123456789'' ! n]" by (subst dec_digits.simps) simp
  then show ?thesis by (simp add: fmt_02d_def)
next
  case False
  assume "n < 100"
  then have "n div 10 < 10" by simp
  then have "dec_digits (n div 10) = [''0123456789'' ! (n div 10)]"
    by (subst dec_digits.simps) simp
  then have "length (dec_digits n) = 2"
    using False by (subst dec_digits.simps) simp
  then show ?thesis by (simp add: fmt_02d_def)
qed

lemma header_text:
  "fmt_header ''ID'' ''Battery(V)'' ''Temp(C)'' ''Light''
   = ''ID        Battery(V)    Temp(C)       Light       ''"
  by code_simp

lemma row_values_nth:
  "i < MAX_SENSORS \<Longrightarrow>
   row_values sensors ! i =
     (if offline (sensors ! i) then offline_values i else online_values i (sensors ! i))"
  by (simp add: row_values_def)

lemma cached_after_reading:
  assumes "0 \<le> fd_of m s" and "rd m = Rd_Data d" and "d \<noteq> []"
  shows "cached (val_of m (polled rd s)) = first_line d"
  using assms by (simp add: val_of_polled buffer_after_def cached_padded)

lemma first_line_nonempty: "d \<noteq> [] \<Longrightarrow> hd d \<noteq> NL \<Longrightarrow> hd d \<noteq> NUL \<Longrightarrow> first_line d \<noteq> []"
  using BUF_SIZE_gt1 by (cases d; cases "BUF_SIZE - 1") (simp_all add: first_line_alt)

lemma cached_battery_kept:
  assumes "0 \<le> fd_batt s" and "cached (val_batt s) \<noteq> []"
    and "no_data (rd Batt) \<or> has_text (rd Batt)"
  shows "cached (val_batt (polled rd s)) \<noteq> []"
proof (cases "no_data (rd Batt)")
  case True
  then have "val_of Batt (polled rd s) = val_of Batt s"
    unfolding val_of_polled by (simp add: buffer_after_same)
  then show ?thesis using assms(2) by simp
next
  case False
  then obtain d where d: "rd Batt = Rd_Data d" "d \<noteq> []" "hd d \<noteq> NL" "hd d \<noteq> NUL"
    using assms(3) by (auto simp: has_text_def split: read_result.splits)
  have "cached (val_of Batt (polled rd s)) = first_line d"
    using assms(1) d(1,2) by (intro cached_after_reading) simp_all
  then show ?thesis using first_line_nonempty [OF d(2,3,4)] by simp
qed

lemma cached_battery_read:
  assumes "0 \<le> fd_batt s" and "has_text (rd Batt)"
  shows "cached (val_batt (polled rd s)) \<noteq> []"
proof -
  obtain d where d: "rd Batt = Rd_Data d" "d \<noteq> []" "hd d \<noteq> NL" "hd d \<noteq> NUL"
    using assms(2) by (auto simp: has_text_def split: read_result.splits)
  have "cached (val_of Batt (polled rd s)) = first_line d"
    using assms(1) d(1,2) by (intro cached_after_reading) simp_all
  then show ?thesis using first_line_nonempty [OF d(2,3,4)] by simp
qed

lemma fd_batt_polled [simp]: "fd_batt (polled rd s) = fd_batt s"
  by (simp add: polled_def)

lemma is_offline_ok: "sensors_ok sensors \<Longrightarrow> i < MAX_SENSORS \<Longrightarrow>
  is_offline (sensors ! i) = Inr (offline (sensors ! i))"
  by (intro is_offline_eq buf_ok_nonempty sensor_ok_val [of _ Batt, simplified] sensors_ok_nth)

lemma close_sensor_polled [simp]: "close_sensor (polled rd s) = close_sensor s"
  by (simp add: close_sensor_def polled_def)

lemma closes_polled_all: "map close_sensor (polled_all rd sensors) = map close_sensor sensors"
  by (rule nth_equalityI) (simp_all add: polled_all_def)

lemma close_sensor_opened:
  "close_sensor (opened os_open i) =
     map Close (filter (\<lambda>fd. 0 \<le> fd)
       [open_sensor_dev os_open i ''batt'', open_sensor_dev os_open i ''temp'',
        open_sensor_dev os_open i ''light''])"
  by (simp add: close_sensor_def opened_def)

lemma closes_opened:
  "concat (map close_sensor (map (opened os_open) [0..<MAX_SENSORS]))
   = map Close (filter (\<lambda>fd. 0 \<le> fd) (opened_fds os_open))"
  unfolding opened_fds_def
  by (simp only: map_map o_def close_sensor_opened filter_concat map_concat)

lemma main_loop_running:
  assumes "sensors_ok sensors" and "\<forall>c\<in>set pre. \<not> is_quit (key c)"
  shows "\<exists>sensors' frames. length frames = length pre
           \<and> main_loop pre sensors trace = Inr (Running, sensors', trace @ cycle_events frames)
           \<and> sensors_ok sensors'
           \<and> map close_sensor sensors' = map close_sensor sensors"
  using assms
proof (induction pre arbitrary: sensors trace)
  case Nil
  have "main_loop [] sensors trace = Inr (Running, sensors, trace @ cycle_events [])"
    by (simp add: cycle_events_def)
  then show ?case using Nil.prems(1) by (intro exI [of _ sensors] exI [of _ "[]"]) simp
next
  case (Cons c cs)
  let ?ss = "polled_all (reads c) sensors"
  let ?f = "frame_of ?ss"
  let ?tr = "trace @ [Polled, Frame ?f, Usleep 100000]"
  have nq: "\<not> is_quit (key c)" and rest: "\<forall>c\<in>set cs. \<not> is_quit (key c)"
    using Cons.prems(2) by simp_all
  have ok: "sensors_ok ?ss" using Cons.prems(1) by (rule sensors_ok_polled_all)
  obtain sensors' frames where
    len: "length frames = length cs"
    and run: "main_loop cs ?ss ?tr = Inr (Running, sensors', ?tr @ cycle_events frames)"
    and ok': "sensors_ok sensors'"
    and cl: "map close_sensor sensors' = map close_sensor ?ss"
    using Cons.IH [OF ok rest, of ?tr] by blast
  have tr: "?tr @ cycle_events frames = trace @ cycle_events (?f # frames)"
    by (simp add: cycle_events_def)
  have "main_loop (c # cs) sensors trace = Inr (Running, sensors', trace @ cycle_events (?f # frames))"
    unfolding main_loop_cycle [OF Cons.prems(1) nq] run tr ..
  moreover have "length (?f # frames) = length (c # cs)" using len by simp
  moreover have "map close_sensor sensors' = map close_sensor sensors"
    using cl by (simp add: closes_polled_all)
  ultimately show ?case using ok' by blast
qed

lemma set_val_same: "set_val m (val_of m s) s = s"
  by (cases m) simp_all

section \<open>The claims\<close>

text \<open>
  Each claim of the specification is stated on the functions of the first section. A
  claim that the code contradicts is stated twice: first at the input where it fails,
  then in the form that holds.
\<close>

subsection \<open>C1: the offline rule and the row it draws\<close>

text \<open>
  C1. For every sensor record the derived status is Offline exactly when the battery
  channel is unavailable (its descriptor is negative: the open failed) or its cached
  battery value is the empty string. An Offline row shows the fixed marker
  \<open>OFFLINE\<close> in all three value columns, whatever the temperature and light
  channels have cached; an Online row shows each channel's cached value.
\<close>

theorem C1_offline_rule_and_row:
  assumes "sensor_ok s"
  shows "is_offline s = Inr (fd_batt s < 0 \<or> cached (val_batt s) = [])
     \<and> render_row i s =
         Inr [sensor_label i,
              if fd_batt s < 0 \<or> cached (val_batt s) = []
              then Mvprintw (5 + i) 12 [COLOR_PAIR 4] (fmt_values ''OFFLINE'' ''OFFLINE'' ''OFFLINE'')
              else Mvprintw (5 + i) 12 [COLOR_PAIR 2]
                     (fmt_values (cached (val_batt s)) (cached (val_temp s)) (cached (val_light s)))]
     \<and> fmt_values ''OFFLINE'' ''OFFLINE'' ''OFFLINE'' = ''OFFLINE       OFFLINE       OFFLINE     ''"
proof -
  have ne: "val_batt s \<noteq> []"
    using assms by (simp add: sensor_ok_def buf_ok_nonempty)
  have "is_offline s = Inr (fd_batt s < 0 \<or> cached (val_batt s) = [])"
    using is_offline_eq [OF ne] by (simp add: offline_def)
  moreover have "render_row i s =
         Inr [sensor_label i,
              if fd_batt s < 0 \<or> cached (val_batt s) = []
              then Mvprintw (5 + i) 12 [COLOR_PAIR 4] (fmt_values ''OFFLINE'' ''OFFLINE'' ''OFFLINE'')
              else Mvprintw (5 + i) 12 [COLOR_PAIR 2]
                     (fmt_values (cached (val_batt s)) (cached (val_temp s)) (cached (val_light s)))]"
    using render_row_eq [OF assms, of i]
    by (simp add: row_of_def offline_def offline_values_def online_values_def)
  ultimately show ?thesis using fmt_values_offline by simp
qed

text \<open>
  The theorem at two records: a sensor whose battery node did not open, with cached
  temperature and light values, and a sensor with a battery reading and no
  temperature channel.
\<close>

theorem C1_offline_rule_and_row_witness:
  "sensor_ok \<lparr>fd_batt = - 1, fd_temp = 4, fd_light = 5,
              val_batt = replicate 32 NUL, val_temp = ''21.5'' @ replicate 28 NUL,
              val_light = ''512'' @ replicate 29 NUL\<rparr>
   \<and> is_offline \<lparr>fd_batt = - 1, fd_temp = 4, fd_light = 5,
              val_batt = replicate 32 NUL, val_temp = ''21.5'' @ replicate 28 NUL,
              val_light = ''512'' @ replicate 29 NUL\<rparr> = Inr True
   \<and> render_row 2 \<lparr>fd_batt = - 1, fd_temp = 4, fd_light = 5,
              val_batt = replicate 32 NUL, val_temp = ''21.5'' @ replicate 28 NUL,
              val_light = ''512'' @ replicate 29 NUL\<rparr>
       = Inr [Mvprintw 7 2 [COLOR_PAIR 3] ''Sensor 02'',
              Mvprintw 7 12 [COLOR_PAIR 4] ''OFFLINE       OFFLINE       OFFLINE     '']
   \<and> sensor_ok \<lparr>fd_batt = 3, fd_temp = - 1, fd_light = 5,
              val_batt = ''3.7'' @ replicate 29 NUL, val_temp = replicate 32 NUL,
              val_light = ''512'' @ replicate 29 NUL\<rparr>
   \<and> is_offline \<lparr>fd_batt = 3, fd_temp = - 1, fd_light = 5,
              val_batt = ''3.7'' @ replicate 29 NUL, val_temp = replicate 32 NUL,
              val_light = ''512'' @ replicate 29 NUL\<rparr> = Inr False
   \<and> render_row 0 \<lparr>fd_batt = 3, fd_temp = - 1, fd_light = 5,
              val_batt = ''3.7'' @ replicate 29 NUL, val_temp = replicate 32 NUL,
              val_light = ''512'' @ replicate 29 NUL\<rparr>
       = Inr [Mvprintw 5 2 [COLOR_PAIR 3] ''Sensor 00'',
              Mvprintw 5 12 [COLOR_PAIR 2] ''3.7                         512         '']"
proof -
  let ?off = "\<lparr>fd_batt = - 1, fd_temp = 4, fd_light = 5,
              val_batt = replicate 32 NUL, val_temp = ''21.5'' @ replicate 28 NUL,
              val_light = ''512'' @ replicate 29 NUL\<rparr>"
  let ?on = "\<lparr>fd_batt = 3, fd_temp = - 1, fd_light = 5,
              val_batt = ''3.7'' @ replicate 29 NUL, val_temp = replicate 32 NUL,
              val_light = ''512'' @ replicate 29 NUL\<rparr>"
  have ok1: "sensor_ok ?off" by code_simp
  have ok2: "sensor_ok ?on" by code_simp
  note T1 = C1_offline_rule_and_row [OF ok1, of 2]
  note T2 = C1_offline_rule_and_row [OF ok2, of 0]
  have c1: "cached (val_batt ?off) = []" by code_simp
  have c2: "cached (val_batt ?on) = ''3.7''" "cached (val_temp ?on) = []"
    "cached (val_light ?on) = ''512''" by code_simp+
  have l1: "sensor_label 2 = Mvprintw 7 2 [COLOR_PAIR 3] ''Sensor 02''" by code_simp
  have l2: "sensor_label 0 = Mvprintw 5 2 [COLOR_PAIR 3] ''Sensor 00''" by code_simp
  have f2: "fmt_values ''3.7'' [] ''512'' = ''3.7                         512         ''"
    by code_simp
  have a: "is_offline ?off = Inr True" using T1 by simp
  have b: "render_row 2 ?off = Inr [Mvprintw 7 2 [COLOR_PAIR 3] ''Sensor 02'',
              Mvprintw 7 12 [COLOR_PAIR 4] ''OFFLINE       OFFLINE       OFFLINE     '']"
    using T1 l1 by simp
  have c: "is_offline ?on = Inr False" using T2 c2 by simp
  have d: "render_row 0 ?on = Inr [Mvprintw 5 2 [COLOR_PAIR 3] ''Sensor 00'',
              Mvprintw 5 12 [COLOR_PAIR 2] ''3.7                         512         '']"
    using T2 c2 l2 f2 by simp
  show ?thesis using ok1 a b ok2 c d by (intro conjI)
qed

subsection \<open>C2: the cached value holds no line break\<close>

text \<open>
  C2. For every channel and every successful read (\<^verbatim>\<open>try_read\<close> returns 1), the
  cached value, the string in the buffer, contains no line-break character: it is the
  text of the bytes read, cut strictly before the first line break (the bytes
  \<open>3.7\<close>, a line break and \<open>stray\<close> give the cached value \<open>3.7\<close>). Every poll
  keeps a cached value free of line breaks so, and in every state that a run of the
  program reaches no cached value of any sensor contains one.
\<close>

theorem C2_cached_value_has_no_line_break:
  "(length buffer = BUF_SIZE \<longrightarrow>
      (\<exists>ret buffer'. try_read r fd buffer = Inr (ret, buffer')
         \<and> (ret \<noteq> 0 \<longrightarrow> NL \<notin> set (cached buffer')
              \<and> (\<exists>d. r = Rd_Data d
                    \<and> cached buffer' = takeWhile (\<lambda>c. c \<noteq> NL) (cached (take (BUF_SIZE - 1) d))))
         \<and> (NL \<notin> set (cached buffer) \<longrightarrow> NL \<notin> set (cached buffer'))
         \<and> (0 \<le> fd \<and> r = Rd_Data (''3.7'' @ NL # ''stray'') \<longrightarrow> ret = 1 \<and> cached buffer' = ''3.7'')))
   \<and> (\<exists>ph sensors trace. main os_open script = Inr (ph, sensors, trace)
         \<and> (\<forall>s\<in>set sensors. \<forall>m. NL \<notin> set (cached (val_of m s))))"
proof (intro conjI impI)
  assume len: "length buffer = BUF_SIZE"
  have eq: "try_read r fd buffer = Inr (ret_after r fd, buffer_after r fd buffer)"
    using len by (rule try_read_eq)
  show "\<exists>ret buffer'. try_read r fd buffer = Inr (ret, buffer')
         \<and> (ret \<noteq> 0 \<longrightarrow> NL \<notin> set (cached buffer')
              \<and> (\<exists>d. r = Rd_Data d
                    \<and> cached buffer' = takeWhile (\<lambda>c. c \<noteq> NL) (cached (take (BUF_SIZE - 1) d))))
         \<and> (NL \<notin> set (cached buffer) \<longrightarrow> NL \<notin> set (cached buffer'))
         \<and> (0 \<le> fd \<and> r = Rd_Data (''3.7'' @ NL # ''stray'') \<longrightarrow> ret = 1 \<and> cached buffer' = ''3.7'')"
  proof (cases "fd < 0 \<or> no_data r")
    case True
    then have "ret_after r fd = 0" "buffer_after r fd buffer = buffer"
      by (simp_all add: ret_after_def buffer_after_same)
    then show ?thesis using eq True by (auto simp: no_data_def)
  next
    case False
    then obtain d where r: "r = Rd_Data d" and d: "d \<noteq> []" and fd: "0 \<le> fd"
      by (cases r) (auto simp: no_data_def)
    have b: "buffer_after r fd buffer = padded (first_line d)"
      using r d fd by (simp add: buffer_after_def)
    have c: "cached (buffer_after r fd buffer) = first_line d"
      by (simp add: b cached_padded)
    have "ret_after r fd = 1" using False by (simp add: ret_after_def)
    moreover have "NL \<notin> set (cached (buffer_after r fd buffer))"
      by (simp add: c NL_notin_first_line)
    moreover have "cached (buffer_after r fd buffer)
        = takeWhile (\<lambda>c. c \<noteq> NL) (cached (take (BUF_SIZE - 1) d))"
      by (simp add: c first_line_def)
    moreover have "r = Rd_Data (''3.7'' @ NL # ''stray'') \<longrightarrow> cached (buffer_after r fd buffer) = ''3.7''"
      using r c first_line_example by auto
    ultimately show ?thesis using eq r by auto
  qed
next
  let ?R = "\<lambda>ss (tr :: event list). \<forall>s\<in>set ss. \<forall>m. NL \<notin> set (val_of m s)"
  have "\<exists>ph sensors trace.
           main_loop script (map (opened os_open) [0..<MAX_SENSORS]) [] = Inr (ph, sensors, trace)
           \<and> sensors_ok sensors \<and> ?R sensors trace
           \<and> (ph = Running) = (\<forall>c\<in>set script. \<not> is_quit (key c))
           \<and> main os_open script =
               Inr (ph, sensors,
                    if ph = Running then trace
                    else trace @ concat (map close_sensor sensors) @ [Endwin])"
  proof (rule main_invariant [where R = ?R])
    show "?R (map (opened os_open) [0..<MAX_SENSORS]) []"
    proof (intro ballI allI)
      fix s m assume "s \<in> set (map (opened os_open) [0..<MAX_SENSORS])"
      then show "NL \<notin> set (val_of m s)" by (cases m) (auto simp: opened_def)
    qed
  next
    fix ss tr c
    assume R: "?R ss tr"
    show "?R (polled_all (reads c) ss)
        (tr @ [Polled, Frame (frame_of (polled_all (reads c) ss)), Usleep 100000])"
      using R by (auto simp: polled_all_def val_of_polled NL_buffer_after)
  qed
  then obtain ph sensors trace where
    m: "main os_open script =
               Inr (ph, sensors,
                    if ph = Running then trace
                    else trace @ concat (map close_sensor sensors) @ [Endwin])"
    and R: "?R sensors trace" by blast
  have "\<forall>s\<in>set sensors. \<forall>m. NL \<notin> set (cached (val_of m s))"
    using R set_cached by blast
  then show "\<exists>ph sensors trace. main os_open script = Inr (ph, sensors, trace)
         \<and> (\<forall>s\<in>set sensors. \<forall>m. NL \<notin> set (cached (val_of m s)))"
    using m by blast
qed

text \<open>The theorem at the specification's example, on a fresh buffer.\<close>

theorem C2_cached_value_has_no_line_break_witness:
  "length (replicate BUF_SIZE NUL) = BUF_SIZE
   \<and> (\<exists>buffer'. try_read (Rd_Data (''3.7'' @ NL # ''stray'')) 3 (replicate BUF_SIZE NUL) = Inr (1, buffer')
         \<and> cached buffer' = ''3.7'' \<and> NL \<notin> set (cached buffer'))"
proof -
  have len: "length (replicate BUF_SIZE NUL) = BUF_SIZE" by simp
  obtain ret buffer' where
    t: "try_read (Rd_Data (''3.7'' @ NL # ''stray'')) 3 (replicate BUF_SIZE NUL) = Inr (ret, buffer')"
    and nz: "ret \<noteq> 0 \<longrightarrow> NL \<notin> set (cached buffer')"
    and ex: "ret = 1 \<and> cached buffer' = ''3.7''"
    using C2_cached_value_has_no_line_break
      [of "replicate BUF_SIZE NUL" "Rd_Data (''3.7'' @ NL # ''stray'')" 3, THEN conjunct1] len
    by auto
  show ?thesis using len t nz ex by auto
qed

subsection \<open>C3: online once the battery channel has read\<close>

text \<open>
  C3, as the specification states it: for every sensor whose battery channel has
  produced at least one successful reading the derived status is Online from then on.
  A battery channel reads \<open>3.7\<close> and a line break: the read succeeds and the sensor
  is Online. It then reads a lone line break: the read succeeds again, the cached
  value is the empty string, and the sensor is Offline.
\<close>

theorem C3_counterexample:
  "try_read (Rd_Data (''3.7'' @ [NL])) 3 (replicate 32 NUL) = Inr (1, ''3.7'' @ replicate 29 NUL)
   \<and> is_offline \<lparr>fd_batt = 3, fd_temp = - 1, fd_light = - 1,
                  val_batt = ''3.7'' @ replicate 29 NUL, val_temp = replicate 32 NUL,
                  val_light = replicate 32 NUL\<rparr> = Inr False
   \<and> try_read (Rd_Data [NL]) 3 (''3.7'' @ replicate 29 NUL) = Inr (1, replicate 32 NUL)
   \<and> is_offline \<lparr>fd_batt = 3, fd_temp = - 1, fd_light = - 1,
                  val_batt = replicate 32 NUL, val_temp = replicate 32 NUL,
                  val_light = replicate 32 NUL\<rparr> = Inr True"
proof (intro conjI)
  show "try_read (Rd_Data (''3.7'' @ [NL])) 3 (replicate 32 NUL) = Inr (1, ''3.7'' @ replicate 29 NUL)"
    by code_simp
  show "is_offline \<lparr>fd_batt = 3, fd_temp = - 1, fd_light = - 1,
                  val_batt = ''3.7'' @ replicate 29 NUL, val_temp = replicate 32 NUL,
                  val_light = replicate 32 NUL\<rparr> = Inr False"
    by code_simp
  show "try_read (Rd_Data [NL]) 3 (''3.7'' @ replicate 29 NUL) = Inr (1, replicate 32 NUL)"
    by code_simp
  show "is_offline \<lparr>fd_batt = 3, fd_temp = - 1, fd_light = - 1,
                  val_batt = replicate 32 NUL, val_temp = replicate 32 NUL,
                  val_light = replicate 32 NUL\<rparr> = Inr True"
    by code_simp
qed

text \<open>
  C3, amended: for every sensor whose battery channel is open, once a battery reading
  has succeeded with a text that is not empty (its first byte is neither a line break
  nor a null byte) the derived status is Online, and it stays Online for as long as
  every later battery read either returns no bytes or succeeds with a text that is not
  empty, whatever the temperature and light channels do, unavailable ones included.
\<close>

theorem C3_online_while_readings_have_text:
  assumes "sensors_ok sensors" and "i < MAX_SENSORS" and "0 \<le> fd_batt (sensors ! i)"
    and "\<not> is_quit (key c)" and "has_text (reads c i Batt)"
    and "\<forall>c'\<in>set cs. no_data (reads c' i Batt) \<or> has_text (reads c' i Batt)"
  shows "\<exists>ph sensors' trace'. main_loop (c # cs) sensors trace = Inr (ph, sensors', trace')
           \<and> is_offline (sensors' ! i) = Inr False"
proof -
  let ?ss = "polled_all (reads c) sensors"
  let ?tr = "trace @ [Polled, Frame (frame_of ?ss), Usleep 100000]"
  let ?R = "\<lambda>ss (tr :: event list). 0 \<le> fd_batt (ss ! i) \<and> cached (val_batt (ss ! i)) \<noteq> []"
  have li: "i < length sensors" using assms(1,2) by (simp add: sensors_ok_length)
  have ok: "sensors_ok ?ss" using assms(1) by (rule sensors_ok_polled_all)
  have first: "?R ?ss ?tr"
    using li assms(3,5) by (simp add: polled_all_nth cached_battery_read)
  have "\<exists>ph sensors' trace'. main_loop cs ?ss ?tr = Inr (ph, sensors', trace')
           \<and> sensors_ok sensors' \<and> ?R sensors' trace'
           \<and> (ph = Running) = (\<forall>c\<in>set cs. \<not> is_quit (key c))"
    using ok first
  proof (rule main_loop_invariant [where R = ?R])
    fix ss tr c'
    assume ss: "sensors_ok ss" and R: "?R ss tr" and c': "c' \<in> set cs"
    have l: "i < length ss" using ss assms(2) by (simp add: sensors_ok_length)
    have "no_data (reads c' i Batt) \<or> has_text (reads c' i Batt)" using assms(6) c' by blast
    then show "?R (polled_all (reads c') ss)
        (tr @ [Polled, Frame (frame_of (polled_all (reads c') ss)), Usleep 100000])"
      using R l by (simp add: polled_all_nth cached_battery_kept)
  qed
  then obtain ph sensors' trace' where
    run: "main_loop cs ?ss ?tr = Inr (ph, sensors', trace')"
    and ok': "sensors_ok sensors'" and R: "?R sensors' trace'" by blast
  have "is_offline (sensors' ! i) = Inr False"
    using is_offline_ok [OF ok' assms(2)] R by (simp add: offline_def)
  moreover have "main_loop (c # cs) sensors trace = Inr (ph, sensors', trace')"
    unfolding main_loop_cycle [OF assms(1,4)] by (rule run)
  ultimately show ?thesis by blast
qed

text \<open>
  The theorem on a monitor of which only the battery node of sensor 0 opened, over
  three rounds: a reading, a round without data, another reading.
\<close>

theorem C3_online_while_readings_have_text_witness:
  "sensors_ok (map (opened (\<lambda>p. if p = ''/dev/lunix0-batt'' then 3 else - 1)) [0..<MAX_SENSORS])
   \<and> (0::nat) < MAX_SENSORS
   \<and> fd_batt (map (opened (\<lambda>p. if p = ''/dev/lunix0-batt'' then 3 else - 1)) [0..<MAX_SENSORS] ! 0) = 3
   \<and> fd_temp (map (opened (\<lambda>p. if p = ''/dev/lunix0-batt'' then 3 else - 1)) [0..<MAX_SENSORS] ! 0) = - 1
   \<and> fd_light (map (opened (\<lambda>p. if p = ''/dev/lunix0-batt'' then 3 else - 1)) [0..<MAX_SENSORS] ! 0) = - 1
   \<and> \<not> is_quit (- 1)
   \<and> has_text (Rd_Data (''3.7'' @ [NL])) \<and> no_data Rd_Error \<and> has_text (Rd_Data (''3.6'' @ [NL]))
   \<and> (\<exists>ph sensors' trace'.
         main_loop [\<lparr>key = - 1, reads = \<lambda>i m. Rd_Data (''3.7'' @ [NL])\<rparr>,
                    \<lparr>key = - 1, reads = \<lambda>i m. Rd_Error\<rparr>,
                    \<lparr>key = - 1, reads = \<lambda>i m. Rd_Data (''3.6'' @ [NL])\<rparr>]
           (map (opened (\<lambda>p. if p = ''/dev/lunix0-batt'' then 3 else - 1)) [0..<MAX_SENSORS]) []
           = Inr (ph, sensors', trace')
         \<and> is_offline (sensors' ! 0) = Inr False)"
proof -
  let ?os = "\<lambda>p. if p = ''/dev/lunix0-batt'' then 3 else (- 1 :: int)"
  let ?ss = "map (opened ?os) [0..<MAX_SENSORS]"
  let ?c1 = "\<lparr>key = - 1, reads = \<lambda>(i::nat) (m::metric). Rd_Data (''3.7'' @ [NL])\<rparr>"
  let ?c2 = "\<lparr>key = - 1, reads = \<lambda>(i::nat) (m::metric). Rd_Error\<rparr>"
  let ?c3 = "\<lparr>key = - 1, reads = \<lambda>(i::nat) (m::metric). Rd_Data (''3.6'' @ [NL])\<rparr>"
  have ok: "sensors_ok ?ss" by (rule sensors_ok_opened)
  have i: "(0::nat) < MAX_SENSORS" by (simp add: MAX_SENSORS_def)
  have s0: "?ss ! 0 = opened ?os 0" using i by simp
  have paths: "dev_path 0 ''batt'' = ''/dev/lunix0-batt''" "dev_path 0 ''temp'' = ''/dev/lunix0-temp''"
    "dev_path 0 ''light'' = ''/dev/lunix0-light''" by code_simp+
  have fds: "fd_batt (?ss ! 0) = 3" "fd_temp (?ss ! 0) = - 1" "fd_light (?ss ! 0) = - 1"
    unfolding s0 by (simp_all add: opened_def open_sensor_dev_def paths)
  have fd: "0 \<le> fd_batt (?ss ! 0)" unfolding fds by simp
  have nq: "\<not> is_quit (key ?c1)" by (simp add: no_key_is_not_quit)
  have h1: "has_text (Rd_Data (''3.7'' @ [NL]))" by (simp add: has_text_def)
  have h2: "no_data Rd_Error" by (simp add: no_data_def)
  have h3: "has_text (Rd_Data (''3.6'' @ [NL]))" by (simp add: has_text_def)
  have first: "has_text (reads ?c1 0 Batt)" using h1 by simp
  have later: "\<forall>c'\<in>set [?c2, ?c3]. no_data (reads c' 0 Batt) \<or> has_text (reads c' 0 Batt)"
    using h2 h3 by simp
  have run: "\<exists>ph sensors' trace'. main_loop [?c1, ?c2, ?c3] ?ss [] = Inr (ph, sensors', trace')
           \<and> is_offline (sensors' ! 0) = Inr False"
    by (rule C3_online_while_readings_have_text [OF ok i fd nq first later])
  show ?thesis
    using ok i fds no_key_is_not_quit h1 h2 h3 run by (intro conjI)
qed

subsection \<open>C4: a poll without data changes nothing\<close>

text \<open>
  C4. For every channel, a poll on an unavailable handle (a negative descriptor)
  returns false at once and touches nothing, and a poll whose \<^verbatim>\<open>read\<close> returns
  zero or a negative byte count returns false and leaves the cached value exactly as
  it was: the call returns 0 with the buffer it was given, and the whole array is as
  before. This holds across any number of repeated polls: after any run of the main
  loop in which the channel is unavailable or every read of it returns no bytes, the
  channel's buffer is the one the run started with.
\<close>

theorem C4_no_data_is_a_no_op:
  "(fd < 0 \<or> (\<exists>bytes tb. sys_read r (replicate BUF_SIZE None) (BUF_SIZE - 1) = Inr (bytes, tb)
                  \<and> bytes \<le> 0)
      \<longrightarrow> try_read r fd buffer = Inr (0, buffer))
   \<and> (i < length sensors
        \<and> (fd_of m (sensors ! i) < 0
             \<or> (\<exists>bytes tb. sys_read r (replicate BUF_SIZE None) (BUF_SIZE - 1) = Inr (bytes, tb)
                   \<and> bytes \<le> 0))
      \<longrightarrow> poll_channel r i m sensors = Inr (0, sensors))
   \<and> (sensors_ok sensors \<and> i < MAX_SENSORS
        \<and> (fd_of m (sensors ! i) < 0
             \<or> (\<forall>c\<in>set script. \<exists>bytes tb.
                   sys_read (reads c i m) (replicate BUF_SIZE None) (BUF_SIZE - 1) = Inr (bytes, tb)
                   \<and> bytes \<le> 0))
      \<longrightarrow> (\<exists>ph sensors' trace'. main_loop script sensors trace = Inr (ph, sensors', trace')
             \<and> val_of m (sensors' ! i) = val_of m (sensors ! i)))"
proof (intro conjI impI)
  assume "fd < 0 \<or> (\<exists>bytes tb. sys_read r (replicate BUF_SIZE None) (BUF_SIZE - 1) = Inr (bytes, tb)
                  \<and> bytes \<le> 0)"
  then have "fd < 0 \<or> no_data r" using sys_read_bytes by blast
  then show "try_read r fd buffer = Inr (0, buffer)"
    using try_read_unavailable try_read_no_data by blast
next
  assume a: "i < length sensors
        \<and> (fd_of m (sensors ! i) < 0
             \<or> (\<exists>bytes tb. sys_read r (replicate BUF_SIZE None) (BUF_SIZE - 1) = Inr (bytes, tb)
                   \<and> bytes \<le> 0))"
  then have "fd_of m (sensors ! i) < 0 \<or> no_data r" using sys_read_bytes by blast
  then have "try_read r (fd_of m (sensors ! i)) (val_of m (sensors ! i))
             = Inr (0, val_of m (sensors ! i))"
    using try_read_unavailable try_read_no_data by blast
  then show "poll_channel r i m sensors = Inr (0, sensors)"
    using a by (simp add: poll_channel_def set_val_same)
next
  assume a: "sensors_ok sensors \<and> i < MAX_SENSORS
        \<and> (fd_of m (sensors ! i) < 0
             \<or> (\<forall>c\<in>set script. \<exists>bytes tb.
                   sys_read (reads c i m) (replicate BUF_SIZE None) (BUF_SIZE - 1) = Inr (bytes, tb)
                   \<and> bytes \<le> 0))"
  then have ok: "sensors_ok sensors" and i: "i < MAX_SENSORS" by simp_all
  have quiet: "fd_of m (sensors ! i) < 0 \<or> (\<forall>c\<in>set script. no_data (reads c i m))"
    using a sys_read_bytes by blast
  let ?R = "\<lambda>ss (tr :: event list). val_of m (ss ! i) = val_of m (sensors ! i)
              \<and> fd_of m (ss ! i) = fd_of m (sensors ! i)"
  have "\<exists>ph sensors' trace'. main_loop script sensors trace = Inr (ph, sensors', trace')
           \<and> sensors_ok sensors' \<and> ?R sensors' trace'
           \<and> (ph = Running) = (\<forall>c\<in>set script. \<not> is_quit (key c))"
  proof (rule main_loop_invariant [OF ok, where R = ?R])
    show "?R sensors trace" by simp
  next
    fix ss tr c
    assume ss: "sensors_ok ss" and R: "?R ss tr" and c: "c \<in> set script"
    have li: "i < length ss" using ss i by (simp add: sensors_ok_length)
    have "fd_of m (ss ! i) < 0 \<or> no_data (reads c i m)"
      using quiet R c by auto
    then have "buffer_after (reads c i m) (fd_of m (ss ! i)) (val_of m (ss ! i)) = val_of m (ss ! i)"
      by (rule buffer_after_same)
    then show "?R (polled_all (reads c) ss)
        (tr @ [Polled, Frame (frame_of (polled_all (reads c) ss)), Usleep 100000])"
      using R li by (simp add: polled_all_nth val_of_polled)
  qed
  then show "\<exists>ph sensors' trace'. main_loop script sensors trace = Inr (ph, sensors', trace')
             \<and> val_of m (sensors' ! i) = val_of m (sensors ! i)"
    by blast
qed

text \<open>
  The theorem at concrete polls: a closed descriptor, a failed read, and two quiet
  rounds of the loop.
\<close>

theorem C4_no_data_is_a_no_op_witness:
  "try_read (Rd_Data ''3.7'') (- 1) ''old'' = Inr (0, ''old'')
   \<and> sys_read Rd_Error (replicate BUF_SIZE None) (BUF_SIZE - 1) = Inr (- 1, replicate BUF_SIZE None)
   \<and> try_read Rd_Error 3 ''old'' = Inr (0, ''old'')
   \<and> sensors_ok (map (opened (\<lambda>p. 3)) [0..<MAX_SENSORS])
   \<and> poll_channel Rd_Error 0 Batt (map (opened (\<lambda>p. 3)) [0..<MAX_SENSORS])
       = Inr (0, map (opened (\<lambda>p. 3)) [0..<MAX_SENSORS])
   \<and> (\<exists>ph sensors' trace'.
         main_loop [\<lparr>key = - 1, reads = \<lambda>i m. Rd_Error\<rparr>, \<lparr>key = - 1, reads = \<lambda>i m. Rd_Data []\<rparr>]
           (map (opened (\<lambda>p. 3)) [0..<MAX_SENSORS]) [] = Inr (ph, sensors', trace')
         \<and> val_of Batt (sensors' ! 0) = replicate BUF_SIZE NUL)"
proof -
  let ?ss = "map (opened (\<lambda>p. 3)) [0..<MAX_SENSORS]"
  let ?script = "[\<lparr>key = - 1, reads = \<lambda>i m. Rd_Error\<rparr>, \<lparr>key = - 1, reads = \<lambda>i m. Rd_Data []\<rparr>]"
  have ok: "sensors_ok ?ss" by (rule sensors_ok_opened)
  have i: "(0::nat) < MAX_SENSORS" by (simp add: MAX_SENSORS_def)
  have li: "0 < length ?ss" using i by simp
  have e: "sys_read Rd_Error (replicate BUF_SIZE None) (BUF_SIZE - 1) = Inr (- 1, replicate BUF_SIZE None)"
    by (simp add: sys_read_def)
  have z: "sys_read (Rd_Data []) (replicate BUF_SIZE None) (BUF_SIZE - 1) = Inr (0, replicate BUF_SIZE None)"
    by (simp add: sys_read_def)
  have 1: "try_read (Rd_Data ''3.7'') (- 1) ''old'' = Inr (0, ''old'')"
    using C4_no_data_is_a_no_op [where fd = "- 1" and r = "Rd_Data ''3.7''" and buffer = "''old''"]
    by simp
  have 2: "try_read Rd_Error 3 ''old'' = Inr (0, ''old'')"
    using C4_no_data_is_a_no_op [where fd = 3 and r = Rd_Error and buffer = "''old''"] e by simp
  have 3: "poll_channel Rd_Error 0 Batt ?ss = Inr (0, ?ss)"
    using C4_no_data_is_a_no_op [where r = Rd_Error and i = 0 and m = Batt and sensors = ?ss] li e
    by simp
  have 4: "\<exists>ph sensors' trace'. main_loop ?script ?ss [] = Inr (ph, sensors', trace')
         \<and> val_of Batt (sensors' ! 0) = val_of Batt (?ss ! 0)"
    using C4_no_data_is_a_no_op
      [where r = Rd_Error and i = 0 and m = Batt and sensors = ?ss and script = ?script
         and trace = "[]"] ok i e z
    by simp
  have v: "val_of Batt (?ss ! 0) = replicate BUF_SIZE NUL"
    using i by (simp add: opened_def)
  show ?thesis using 1 2 3 4 e ok unfolding v by blast
qed

subsection \<open>C5: the quit key stops the loop and releases the descriptors\<close>

text \<open>
  C5. The loop leaves \<open>Running\<close> for \<open>Stopped\<close> when a round sees the quit key
  (\<open>q\<close> or \<open>Q\<close>), and on nothing else: a script without a quit key leaves the
  monitor \<open>Running\<close> after one poll pass and one frame per round, whatever the
  opens answered and the reads delivered, so no error ends the loop. Once the quit
  key is seen there is no further poll or frame: the rounds scripted after it change
  nothing, and what follows the rounds before it is one \<^verbatim>\<open>close\<close> for each descriptor
  that an open returned (a failed open, a negative descriptor, is skipped), in order,
  each once, and then \<^verbatim>\<open>endwin\<close>.
\<close>

theorem C5_quit_stops_and_releases:
  assumes "\<forall>c\<in>set pre. \<not> is_quit (key c)" and "is_quit (key q)"
  shows "\<exists>sensors frames. length frames = length pre
     \<and> main os_open pre =
         Inr (Running, sensors, concat (map (\<lambda>f. [Polled, Frame f, Usleep 100000]) frames))
     \<and> main os_open (pre @ q # post) =
         Inr (Stopped, sensors,
              concat (map (\<lambda>f. [Polled, Frame f, Usleep 100000]) frames)
              @ map Close (filter (\<lambda>fd. 0 \<le> fd)
                  (concat (map (\<lambda>i. [open_sensor_dev os_open i ''batt'',
                                     open_sensor_dev os_open i ''temp'',
                                     open_sensor_dev os_open i ''light'']) [0..<MAX_SENSORS])))
              @ [Endwin])
     \<and> is_quit (of_char CHR ''q'') \<and> is_quit (of_char CHR ''Q'')"
proof -
  let ?ss0 = "map (opened os_open) [0..<MAX_SENSORS]"
  obtain sensors frames where
    len: "length frames = length pre"
    and run: "main_loop pre ?ss0 [] = Inr (Running, sensors, [] @ cycle_events frames)"
    and ok: "sensors_ok sensors"
    and cl: "map close_sensor sensors = map close_sensor ?ss0"
    using main_loop_running [OF sensors_ok_opened assms(1), of os_open "[]"] by blast
  have run': "main_loop pre ?ss0 [] = Inr (Running, sensors, cycle_events frames)"
    using run by simp
  have a: "main os_open pre = Inr (Running, sensors, cycle_events frames)"
    by (simp add: main_def init_sensors_eq run')
  have quit: "main_loop (pre @ q # post) ?ss0 [] = Inr (Stopped, sensors, cycle_events frames)"
    using run' assms(2) by (rule main_loop_after_quit)
  have closes: "cleanup sensors
      = Inr (map Close (filter (\<lambda>fd. 0 \<le> fd) (opened_fds os_open)) @ [Endwin])"
    using cleanup_eq [OF sensors_ok_length [OF ok]] cl closes_opened [of os_open] by simp
  have b: "main os_open (pre @ q # post) =
         Inr (Stopped, sensors,
              cycle_events frames @ map Close (filter (\<lambda>fd. 0 \<le> fd) (opened_fds os_open)) @ [Endwin])"
    by (simp add: main_def init_sensors_eq quit closes)
  have k: "is_quit (of_char CHR ''q'')" "is_quit (of_char CHR ''Q'')"
    by (simp_all add: is_quit_def)
  show ?thesis
    using len a b k unfolding cycle_events_def opened_fds_def
    by (intro exI [of _ sensors] exI [of _ frames] conjI)
qed

text \<open>
  The theorem on a monitor of which two device nodes opened: a round without a key,
  the quit key, and a round that is never run.
\<close>

theorem C5_quit_stops_and_releases_witness:
  "\<not> is_quit (- 1) \<and> is_quit 113
   \<and> (\<exists>sensors f.
         main (\<lambda>p. if p = ''/dev/lunix0-batt'' then 3 else if p = ''/dev/lunix15-light'' then 4 else - 1)
           [\<lparr>key = - 1, reads = \<lambda>i m. Rd_Error\<rparr>]
           = Inr (Running, sensors, [Polled, Frame f, Usleep 100000])
         \<and> main (\<lambda>p. if p = ''/dev/lunix0-batt'' then 3 else if p = ''/dev/lunix15-light'' then 4 else - 1)
             [\<lparr>key = - 1, reads = \<lambda>i m. Rd_Error\<rparr>, \<lparr>key = 113, reads = \<lambda>i m. Rd_Error\<rparr>,
              \<lparr>key = - 1, reads = \<lambda>i m. Rd_Data ''3.7''\<rparr>]
           = Inr (Stopped, sensors, [Polled, Frame f, Usleep 100000, Close 3, Close 4, Endwin]))"
proof -
  let ?os = "\<lambda>p. if p = ''/dev/lunix0-batt'' then 3 else if p = ''/dev/lunix15-light'' then 4 else (- 1 :: int)"
  let ?idle = "\<lparr>key = - 1, reads = \<lambda>(i::nat) (m::metric). Rd_Error\<rparr>"
  let ?q = "\<lparr>key = 113, reads = \<lambda>(i::nat) (m::metric). Rd_Error\<rparr>"
  let ?late = "\<lparr>key = - 1, reads = \<lambda>(i::nat) (m::metric). Rd_Data ''3.7''\<rparr>"
  have nq: "\<not> is_quit (- 1)" by (rule no_key_is_not_quit)
  have q: "is_quit 113" by (simp add: is_quit_def)
  have pre: "\<forall>c\<in>set [?idle]. \<not> is_quit (key c)" using nq by simp
  have kq: "is_quit (key ?q)" using q by simp
  have fds: "map Close (filter (\<lambda>fd. 0 \<le> fd)
                  (concat (map (\<lambda>i. [open_sensor_dev ?os i ''batt'',
                                     open_sensor_dev ?os i ''temp'',
                                     open_sensor_dev ?os i ''light'']) [0..<MAX_SENSORS])))
             = [Close 3, Close 4]"
    by code_simp
  from C5_quit_stops_and_releases [OF pre kq, of ?os "[?late]"]
  obtain sensors frames where
    len: "length frames = length [?idle]"
    and a: "main ?os [?idle] =
         Inr (Running, sensors, concat (map (\<lambda>f. [Polled, Frame f, Usleep 100000]) frames))"
    and b: "main ?os ([?idle] @ ?q # [?late]) =
         Inr (Stopped, sensors,
              concat (map (\<lambda>f. [Polled, Frame f, Usleep 100000]) frames)
              @ map Close (filter (\<lambda>fd. 0 \<le> fd)
                  (concat (map (\<lambda>i. [open_sensor_dev ?os i ''batt'',
                                     open_sensor_dev ?os i ''temp'',
                                     open_sensor_dev ?os i ''light'']) [0..<MAX_SENSORS])))
              @ [Endwin])"
    by (elim exE conjE)
  from len obtain f where f: "frames = [f]"
    by (cases frames) simp_all
  have a': "main ?os [?idle] = Inr (Running, sensors, [Polled, Frame f, Usleep 100000])"
    using a unfolding f by simp
  have b': "main ?os [?idle, ?q, ?late]
            = Inr (Stopped, sensors, [Polled, Frame f, Usleep 100000, Close 3, Close 4, Endwin])"
    using b unfolding f fds by simp
  show ?thesis using nq q a' b' by (intro conjI exI [of _ sensors] exI [of _ f])
qed

subsection \<open>C6: sixteen rows, in order\<close>

text \<open>
  C6. With the configured count of 16, every frame the program renders has exactly 16
  sensor rows in ascending id order, ids 0 to 15: after the title, the disclaimer and
  the header come, for \<open>i\<close> from 0 to 15, the label of sensor \<open>i\<close> on row
  \<open>5 + i\<close> and its values. This holds even when every open attempt failed, and then
  every row shows the \<open>OFFLINE\<close> marker in all three value columns.
\<close>

theorem C6_sixteen_rows_in_order:
  "\<exists>ph sensors trace. main os_open script = Inr (ph, sensors, trace)
     \<and> (\<forall>f. Frame f \<in> set trace \<longrightarrow>
          (\<exists>vals. length vals = MAX_SENSORS
             \<and> f = [frame_title, frame_disclaimer, frame_header]
                   @ concat (map (\<lambda>i. [sensor_label i, vals ! i]) [0..<MAX_SENSORS])
                   @ [frame_footer]
             \<and> ((\<forall>p. os_open p < 0) \<longrightarrow>
                  (\<forall>i<MAX_SENSORS. vals ! i =
                     Mvprintw (5 + i) 12 [COLOR_PAIR 4] ''OFFLINE       OFFLINE       OFFLINE     ''))))
     \<and> map sensor_label [0..<MAX_SENSORS] =
         [Mvprintw 5 2 [COLOR_PAIR 3] ''Sensor 00'', Mvprintw 6 2 [COLOR_PAIR 3] ''Sensor 01'',
          Mvprintw 7 2 [COLOR_PAIR 3] ''Sensor 02'', Mvprintw 8 2 [COLOR_PAIR 3] ''Sensor 03'',
          Mvprintw 9 2 [COLOR_PAIR 3] ''Sensor 04'', Mvprintw 10 2 [COLOR_PAIR 3] ''Sensor 05'',
          Mvprintw 11 2 [COLOR_PAIR 3] ''Sensor 06'', Mvprintw 12 2 [COLOR_PAIR 3] ''Sensor 07'',
          Mvprintw 13 2 [COLOR_PAIR 3] ''Sensor 08'', Mvprintw 14 2 [COLOR_PAIR 3] ''Sensor 09'',
          Mvprintw 15 2 [COLOR_PAIR 3] ''Sensor 10'', Mvprintw 16 2 [COLOR_PAIR 3] ''Sensor 11'',
          Mvprintw 17 2 [COLOR_PAIR 3] ''Sensor 12'', Mvprintw 18 2 [COLOR_PAIR 3] ''Sensor 13'',
          Mvprintw 19 2 [COLOR_PAIR 3] ''Sensor 14'', Mvprintw 20 2 [COLOR_PAIR 3] ''Sensor 15'']"
proof -
  let ?P = "\<lambda>f. \<exists>vals. length vals = MAX_SENSORS
             \<and> f = [frame_title, frame_disclaimer, frame_header]
                   @ concat (map (\<lambda>i. [sensor_label i, vals ! i]) [0..<MAX_SENSORS])
                   @ [frame_footer]
             \<and> ((\<forall>p. os_open p < 0) \<longrightarrow>
                  (\<forall>i<MAX_SENSORS. vals ! i =
                     Mvprintw (5 + i) 12 [COLOR_PAIR 4] ''OFFLINE       OFFLINE       OFFLINE     ''))"
  let ?R = "\<lambda>ss tr. (\<forall>f. Frame f \<in> set tr \<longrightarrow> ?P f)
              \<and> ((\<forall>p. os_open p < 0) \<longrightarrow> (\<forall>s\<in>set ss. fd_batt s < 0))"
  have frame: "?P (frame_of ss)"
    if ok: "sensors_ok ss" and off: "(\<forall>p. os_open p < 0) \<longrightarrow> (\<forall>s\<in>set ss. fd_batt s < 0)" for ss
  proof -
    have "(\<forall>p. os_open p < 0) \<longrightarrow>
            (\<forall>i<MAX_SENSORS. row_values ss ! i =
               Mvprintw (5 + i) 12 [COLOR_PAIR 4] ''OFFLINE       OFFLINE       OFFLINE     '')"
    proof (intro impI allI)
      fix i assume a: "\<forall>p. os_open p < 0" and i: "i < MAX_SENSORS"
      have "ss ! i \<in> set ss" using i ok by (simp add: sensors_ok_length)
      then have "fd_batt (ss ! i) < 0" using off a by blast
      then show "row_values ss ! i =
               Mvprintw (5 + i) 12 [COLOR_PAIR 4] ''OFFLINE       OFFLINE       OFFLINE     ''"
        using i by (simp add: row_values_offline offline_values_def fmt_values_offline)
    qed
    then show ?thesis using frame_of_rows [of ss] length_row_values [of ss] by blast
  qed
  have "\<exists>ph sensors trace.
           main_loop script (map (opened os_open) [0..<MAX_SENSORS]) [] = Inr (ph, sensors, trace)
           \<and> sensors_ok sensors \<and> ?R sensors trace
           \<and> (ph = Running) = (\<forall>c\<in>set script. \<not> is_quit (key c))
           \<and> main os_open script =
               Inr (ph, sensors,
                    if ph = Running then trace
                    else trace @ concat (map close_sensor sensors) @ [Endwin])"
  proof (rule main_invariant [where R = ?R])
    show "?R (map (opened os_open) [0..<MAX_SENSORS]) []"
      by (auto simp: opened_def open_sensor_dev_def)
  next
    fix ss tr c
    assume ok: "sensors_ok ss" and R: "?R ss tr"
    let ?ss = "polled_all (reads c) ss"
    have off: "(\<forall>p. os_open p < 0) \<longrightarrow> (\<forall>s\<in>set ?ss. fd_batt s < 0)"
      using R fd_batt_polled_all by blast
    have "?P (frame_of ?ss)"
      using sensors_ok_polled_all [OF ok] off by (rule frame)
    then show "?R ?ss (tr @ [Polled, Frame (frame_of ?ss), Usleep 100000])"
      using R off by auto
  qed
  then obtain ph sensors trace where
    m: "main os_open script =
               Inr (ph, sensors,
                    if ph = Running then trace
                    else trace @ concat (map close_sensor sensors) @ [Endwin])"
    and R: "\<forall>f. Frame f \<in> set trace \<longrightarrow> ?P f" by blast
  let ?tr = "if ph = Running then trace else trace @ concat (map close_sensor sensors) @ [Endwin]"
  have F: "\<forall>f. Frame f \<in> set ?tr \<longrightarrow> ?P f"
    using R no_frame_in_closes [of _ sensors] by auto
  show ?thesis
  proof (intro exI conjI)
    show "main os_open script = Inr (ph, sensors, ?tr)" by (rule m)
    show "\<forall>f. Frame f \<in> set ?tr \<longrightarrow> ?P f" by (rule F)
  qed (rule sensor_labels)
qed

text \<open>The theorem on one round of a monitor none of whose device nodes opened.\<close>

theorem C6_sixteen_rows_in_order_witness:
  "\<exists>ph sensors trace f vals.
     main (\<lambda>p. - 1) [\<lparr>key = - 1, reads = \<lambda>i m. Rd_Error\<rparr>] = Inr (ph, sensors, trace)
     \<and> Frame f \<in> set trace
     \<and> length vals = MAX_SENSORS
     \<and> f = [frame_title, frame_disclaimer, frame_header]
           @ concat (map (\<lambda>i. [sensor_label i, vals ! i]) [0..<MAX_SENSORS])
           @ [frame_footer]
     \<and> vals ! 0 = Mvprintw 5 12 [COLOR_PAIR 4] ''OFFLINE       OFFLINE       OFFLINE     ''
     \<and> vals ! 15 = Mvprintw 20 12 [COLOR_PAIR 4] ''OFFLINE       OFFLINE       OFFLINE     ''"
proof -
  let ?c = "\<lparr>key = - 1, reads = \<lambda>i m. Rd_Error\<rparr>"
  let ?f = "frame_of (polled_all (reads ?c) (map (opened (\<lambda>p. - 1)) [0..<MAX_SENSORS]))"
  obtain ph sensors trace where
    m: "main (\<lambda>p. - 1) [?c] = Inr (ph, sensors, trace)"
    and F: "\<forall>f. Frame f \<in> set trace \<longrightarrow>
          (\<exists>vals. length vals = MAX_SENSORS
             \<and> f = [frame_title, frame_disclaimer, frame_header]
                   @ concat (map (\<lambda>i. [sensor_label i, vals ! i]) [0..<MAX_SENSORS])
                   @ [frame_footer]
             \<and> ((\<forall>p::string. (- 1 :: int) < 0) \<longrightarrow>
                  (\<forall>i<MAX_SENSORS. vals ! i =
                     Mvprintw (5 + i) 12 [COLOR_PAIR 4] ''OFFLINE       OFFLINE       OFFLINE     '')))"
    using C6_sixteen_rows_in_order [of "\<lambda>p. - 1" "[?c]"] by blast
  have "\<not> is_quit (key ?c)" by (simp add: no_key_is_not_quit)
  then have "main (\<lambda>p. - 1) [?c] =
     Inr (Running, polled_all (reads ?c) (map (opened (\<lambda>p. - 1)) [0..<MAX_SENSORS]),
          [Polled, Frame ?f, Usleep 100000])"
    by (rule main_one_cycle)
  then have "Frame ?f \<in> set trace" using m by simp
  then obtain vals where
    v: "length vals = MAX_SENSORS"
       "?f = [frame_title, frame_disclaimer, frame_header]
                   @ concat (map (\<lambda>i. [sensor_label i, vals ! i]) [0..<MAX_SENSORS])
                   @ [frame_footer]"
    and off: "\<forall>i<MAX_SENSORS. vals ! i =
                     Mvprintw (5 + i) 12 [COLOR_PAIR 4] ''OFFLINE       OFFLINE       OFFLINE     ''"
    using F by auto
  have "vals ! 0 = Mvprintw 5 12 [COLOR_PAIR 4] ''OFFLINE       OFFLINE       OFFLINE     ''"
    using off [rule_format, of 0] by (simp add: MAX_SENSORS_def)
  moreover have "vals ! 15 = Mvprintw 20 12 [COLOR_PAIR 4] ''OFFLINE       OFFLINE       OFFLINE     ''"
    using off [rule_format, of 15] by (simp add: MAX_SENSORS_def)
  ultimately show ?thesis using m \<open>Frame ?f \<in> set trace\<close> v by blast
qed

subsection \<open>C7: what a successful read stores\<close>

text \<open>
  C7, as the specification states it: for every successful read the stored value is
  the decoded text cut at the first line break and bounded to the same fixed width
  used for display. The display prints each value with \<^verbatim>\<open>%-12s\<close>, a field of 12
  characters; a payload of 20 letters is stored whole, 20 characters long, and the
  field prints all of them.
\<close>

theorem C7_counterexample:
  "try_read (Rd_Data ''AAAAAAAAAAAAAAAAAAAA'') 3 (replicate BUF_SIZE NUL)
     = Inr (1, ''AAAAAAAAAAAAAAAAAAAA'' @ replicate 12 NUL)
   \<and> cached (''AAAAAAAAAAAAAAAAAAAA'' @ replicate 12 NUL) = ''AAAAAAAAAAAAAAAAAAAA''
   \<and> \<not> length (cached (''AAAAAAAAAAAAAAAAAAAA'' @ replicate 12 NUL)) \<le> 12
   \<and> ljust 12 (cached (''AAAAAAAAAAAAAAAAAAAA'' @ replicate 12 NUL)) = ''AAAAAAAAAAAAAAAAAAAA''"
proof -
  have 1: "try_read (Rd_Data ''AAAAAAAAAAAAAAAAAAAA'') 3 (replicate BUF_SIZE NUL)
     = Inr (1, ''AAAAAAAAAAAAAAAAAAAA'' @ replicate 12 NUL)"
    by code_simp
  have 2: "cached (''AAAAAAAAAAAAAAAAAAAA'' @ replicate 12 NUL) = ''AAAAAAAAAAAAAAAAAAAA''"
    by code_simp
  show ?thesis unfolding 2 using 1 by (simp add: ljust_def)
qed

text \<open>
  C7, amended: for every successful read (a positive byte count) the stored value is
  the text of the bytes read, cut at the first line break, and it is bounded by the
  buffer, not by the display field: at most \<open>BUF_SIZE - 1\<close> characters in a buffer of
  \<open>BUF_SIZE\<close> bytes. A longer payload is cut, not rejected, and the routine does not
  fault on it; the read asks for at most \<open>BUF_SIZE - 1\<close> bytes, so that the bytes
  past them never matter.
\<close>

theorem C7_stored_value_bounded_by_buffer:
  assumes "length buffer = BUF_SIZE" and "0 \<le> fd" and "d \<noteq> []"
  shows "\<exists>buffer'. try_read (Rd_Data d) fd buffer = Inr (1, buffer')
           \<and> cached buffer' = takeWhile (\<lambda>c. c \<noteq> NL) (cached (take (BUF_SIZE - 1) d))
           \<and> length (cached buffer') \<le> BUF_SIZE - 1
           \<and> length buffer' = BUF_SIZE
           \<and> try_read (Rd_Data (take (BUF_SIZE - 1) d)) fd buffer = Inr (1, buffer')
           \<and> (\<exists>bytes temp_buf.
                 sys_read (Rd_Data d) (replicate BUF_SIZE None) (BUF_SIZE - 1) = Inr (bytes, temp_buf)
                 \<and> 0 < bytes \<and> bytes \<le> int (BUF_SIZE - 1))"
proof -
  let ?b = "padded (first_line d)"
  have len: "BUF_SIZE \<le> length buffer" using assms(1) by simp
  have run: "try_read (Rd_Data d) fd buffer = Inr (1, ?b)"
    using try_read_data [OF assms(2,3) len] assms(1) by simp
  have c: "cached ?b = takeWhile (\<lambda>c. c \<noteq> NL) (cached (take (BUF_SIZE - 1) d))"
    unfolding cached_padded by (rule first_line_def)
  have l: "length (cached ?b) \<le> BUF_SIZE - 1"
    unfolding cached_padded by (rule length_first_line)
  have lb: "length ?b = BUF_SIZE"
    using buf_ok_padded [of d] by (simp add: buf_ok_def)
  have ne: "take (BUF_SIZE - 1) d \<noteq> []"
    using assms(3) BUF_SIZE_gt1 by (cases d) simp_all
  have "try_read (Rd_Data (take (BUF_SIZE - 1) d)) fd buffer
        = Inr (1, padded (first_line (take (BUF_SIZE - 1) d)) @ drop BUF_SIZE buffer)"
    by (rule try_read_data [OF assms(2) ne len])
  then have cut: "try_read (Rd_Data (take (BUF_SIZE - 1) d)) fd buffer = Inr (1, ?b)"
    unfolding first_line_take using assms(1) by simp
  obtain bytes temp_buf where
    rd: "sys_read (Rd_Data d) (replicate BUF_SIZE None) (BUF_SIZE - 1) = Inr (bytes, temp_buf)"
    using sys_read_total by blast
  have "\<not> no_data (Rd_Data d)" using assms(3) by (simp add: no_data_def)
  then have "0 < bytes \<and> bytes \<le> int (BUF_SIZE - 1)"
    using sys_read_bytes [OF rd] by auto
  then show ?thesis using run c l lb cut rd by blast
qed

text \<open>The theorem at a payload of 40 letters on a fresh buffer: 31 of them are stored.\<close>

theorem C7_stored_value_bounded_by_buffer_witness:
  "length (replicate BUF_SIZE NUL) = BUF_SIZE \<and> (0::int) \<le> 3
   \<and> replicate 40 CHR ''A'' \<noteq> []
   \<and> (\<exists>buffer'. try_read (Rd_Data (replicate 40 CHR ''A'')) 3 (replicate BUF_SIZE NUL) = Inr (1, buffer')
         \<and> cached buffer' = replicate 31 CHR ''A''
         \<and> length buffer' = BUF_SIZE)"
proof -
  have len: "length (replicate BUF_SIZE NUL) = BUF_SIZE" by simp
  have fd: "(0::int) \<le> 3" by simp
  have d: "replicate 40 CHR ''A'' \<noteq> []" by simp
  have v: "takeWhile (\<lambda>c. c \<noteq> NL) (cached (take (BUF_SIZE - 1) (replicate 40 CHR ''A'')))
           = replicate 31 CHR ''A''"
    by code_simp
  show ?thesis
    using C7_stored_value_bounded_by_buffer [OF len fd d] len d unfolding v by auto
qed

subsection \<open>C8: the columns of the table\<close>

text \<open>
  C8, as the specification states it: in every rendered frame the layout uses a fixed
  column width of 8 characters for the id column and 12 characters for each of the
  three value fields. A battery reading of 20 letters gives a row whose first value
  field is 20 characters wide, so that the value line has 48 characters and not 40,
  and the label of every row, \<open>Sensor 00\<close>, has 9 characters.
\<close>

theorem C8_counterexample:
  "poll_channel (Rd_Data ''AAAAAAAAAAAAAAAAAAAA'') 0 Batt
     [\<lparr>fd_batt = 3, fd_temp = 4, fd_light = 5, val_batt = replicate 32 NUL,
       val_temp = replicate 32 NUL, val_light = replicate 32 NUL\<rparr>]
   = Inr (1, [\<lparr>fd_batt = 3, fd_temp = 4, fd_light = 5,
               val_batt = ''AAAAAAAAAAAAAAAAAAAA'' @ replicate 12 NUL,
               val_temp = replicate 32 NUL, val_light = replicate 32 NUL\<rparr>])
   \<and> render_row 0 \<lparr>fd_batt = 3, fd_temp = 4, fd_light = 5,
               val_batt = ''AAAAAAAAAAAAAAAAAAAA'' @ replicate 12 NUL,
               val_temp = replicate 32 NUL, val_light = replicate 32 NUL\<rparr>
     = Inr [Mvprintw 5 2 [COLOR_PAIR 3] ''Sensor 00'',
            Mvprintw 5 12 [COLOR_PAIR 2] (''AAAAAAAAAAAAAAAAAAAA'' @ replicate 28 CHR '' '')]
   \<and> \<not> length (''AAAAAAAAAAAAAAAAAAAA'' @ replicate 28 CHR '' '') = 12 + 2 + 12 + 2 + 12
   \<and> \<not> length ''Sensor 00'' \<le> 8"
proof -
  have 1: "poll_channel (Rd_Data ''AAAAAAAAAAAAAAAAAAAA'') 0 Batt
     [\<lparr>fd_batt = 3, fd_temp = 4, fd_light = 5, val_batt = replicate 32 NUL,
       val_temp = replicate 32 NUL, val_light = replicate 32 NUL\<rparr>]
   = Inr (1, [\<lparr>fd_batt = 3, fd_temp = 4, fd_light = 5,
               val_batt = ''AAAAAAAAAAAAAAAAAAAA'' @ replicate 12 NUL,
               val_temp = replicate 32 NUL, val_light = replicate 32 NUL\<rparr>])"
    by code_simp
  have 2: "render_row 0 \<lparr>fd_batt = 3, fd_temp = 4, fd_light = 5,
               val_batt = ''AAAAAAAAAAAAAAAAAAAA'' @ replicate 12 NUL,
               val_temp = replicate 32 NUL, val_light = replicate 32 NUL\<rparr>
     = Inr [Mvprintw 5 2 [COLOR_PAIR 3] ''Sensor 00'',
            Mvprintw 5 12 [COLOR_PAIR 2] (''AAAAAAAAAAAAAAAAAAAA'' @ replicate 28 CHR '' '')]"
    by code_simp
  show ?thesis using 1 2 by simp
qed

text \<open>
  C8, amended: in every rendered frame the header line is laid out with a field of 8
  characters for \<open>ID\<close> and fields of 12 for \<open>Battery(V)\<close>, \<open>Temp(C)\<close> and
  \<open>Light\<close>, two blanks between fields, and there is one row per sensor. The label
  of a row, \<open>Sensor NN\<close>, has 9 characters and starts at column 2; its three value
  fields start at column 12, two blanks between them, and each is at least 12
  characters wide: a value shorter than 12 is padded on the right to 12, a longer one
  (up to \<open>BUF_SIZE - 1\<close> characters) is printed whole and moves the fields after it.
\<close>

theorem C8_columns_have_minimum_width:
  assumes "sensors_ok sensors"
  shows "\<exists>rows. render_frame sensors
               = Inr ([frame_title, frame_disclaimer, frame_header] @ concat rows @ [frame_footer])
     \<and> frame_header =
         Mvprintw 3 2 [A_UNDERLINE]
           (ljust 8 ''ID'' @ ''  '' @ ljust 12 ''Battery(V)'' @ ''  '' @ ljust 12 ''Temp(C)''
            @ ''  '' @ ljust 12 ''Light'')
     \<and> ljust 8 ''ID'' @ ''  '' @ ljust 12 ''Battery(V)'' @ ''  '' @ ljust 12 ''Temp(C)''
            @ ''  '' @ ljust 12 ''Light''
         = ''ID        Battery(V)    Temp(C)       Light       ''
     \<and> length rows = MAX_SENSORS
     \<and> (\<forall>i<MAX_SENSORS. \<exists>attrs b t l.
          rows ! i = [Mvprintw (5 + i) 2 [COLOR_PAIR 3] (''Sensor '' @ fmt_02d i),
                      Mvprintw (5 + i) 12 attrs (ljust 12 b @ ''  '' @ ljust 12 t @ ''  '' @ ljust 12 l)]
          \<and> length (''Sensor '' @ fmt_02d i) = 9
          \<and> (attrs, b, t, l) =
              (if fd_batt (sensors ! i) < 0 \<or> cached (val_batt (sensors ! i)) = []
               then ([COLOR_PAIR 4], ''OFFLINE'', ''OFFLINE'', ''OFFLINE'')
               else ([COLOR_PAIR 2], cached (val_batt (sensors ! i)), cached (val_temp (sensors ! i)),
                     cached (val_light (sensors ! i))))
          \<and> length (ljust 12 b) = max 12 (length b)
          \<and> length (ljust 12 t) = max 12 (length t)
          \<and> length (ljust 12 l) = max 12 (length l)
          \<and> length b \<le> BUF_SIZE - 1 \<and> length t \<le> BUF_SIZE - 1 \<and> length l \<le> BUF_SIZE - 1)"
proof -
  let ?rows = "map (\<lambda>i. [sensor_label i, row_values sensors ! i]) [0..<MAX_SENSORS]"
  have fr: "render_frame sensors
            = Inr ([frame_title, frame_disclaimer, frame_header] @ concat ?rows @ [frame_footer])"
    using render_frame_eq [OF assms] frame_of_rows [of sensors] by simp
  have hd: "frame_header =
         Mvprintw 3 2 [A_UNDERLINE]
           (ljust 8 ''ID'' @ ''  '' @ ljust 12 ''Battery(V)'' @ ''  '' @ ljust 12 ''Temp(C)''
            @ ''  '' @ ljust 12 ''Light'')"
    by (simp add: frame_header_def fmt_header_def)
  have ht: "ljust 8 ''ID'' @ ''  '' @ ljust 12 ''Battery(V)'' @ ''  '' @ ljust 12 ''Temp(C)''
            @ ''  '' @ ljust 12 ''Light''
         = ''ID        Battery(V)    Temp(C)       Light       ''"
    using header_text by (simp only: fmt_header_def)
  have len: "length ?rows = MAX_SENSORS" by simp
  have rows: "\<exists>attrs b t l.
          ?rows ! i = [Mvprintw (5 + i) 2 [COLOR_PAIR 3] (''Sensor '' @ fmt_02d i),
                      Mvprintw (5 + i) 12 attrs (ljust 12 b @ ''  '' @ ljust 12 t @ ''  '' @ ljust 12 l)]
          \<and> length (''Sensor '' @ fmt_02d i) = 9
          \<and> (attrs, b, t, l) =
              (if fd_batt (sensors ! i) < 0 \<or> cached (val_batt (sensors ! i)) = []
               then ([COLOR_PAIR 4], ''OFFLINE'', ''OFFLINE'', ''OFFLINE'')
               else ([COLOR_PAIR 2], cached (val_batt (sensors ! i)), cached (val_temp (sensors ! i)),
                     cached (val_light (sensors ! i))))
          \<and> length (ljust 12 b) = max 12 (length b)
          \<and> length (ljust 12 t) = max 12 (length t)
          \<and> length (ljust 12 l) = max 12 (length l)
          \<and> length b \<le> BUF_SIZE - 1 \<and> length t \<le> BUF_SIZE - 1 \<and> length l \<le> BUF_SIZE - 1"
    if i: "i < MAX_SENSORS" for i
  proof -
    let ?s = "sensors ! i"
    have ok: "sensor_ok ?s" using assms i by (rule sensors_ok_nth)
    have lab: "length (''Sensor '' @ fmt_02d i) = 9"
      using i by (simp add: length_fmt_02d MAX_SENSORS_def)
    have bound: "length (cached (val_batt ?s)) \<le> BUF_SIZE - 1"
      "length (cached (val_temp ?s)) \<le> BUF_SIZE - 1"
      "length (cached (val_light ?s)) \<le> BUF_SIZE - 1"
      using length_cached [OF sensor_ok_val [OF ok, of Batt]]
        length_cached [OF sensor_ok_val [OF ok, of Temp]]
        length_cached [OF sensor_ok_val [OF ok, of Light]] by simp_all
    have seven: "length ''OFFLINE'' \<le> BUF_SIZE - 1" by (simp add: BUF_SIZE_def)
    have nth: "?rows ! i = [sensor_label i,
        if offline ?s then offline_values i else online_values i ?s]"
      using i by (simp add: row_values_nth)
    show ?thesis
    proof (cases "offline ?s")
      case True
      then have "?rows ! i = [Mvprintw (5 + i) 2 [COLOR_PAIR 3] (''Sensor '' @ fmt_02d i),
                      Mvprintw (5 + i) 12 [COLOR_PAIR 4]
                        (ljust 12 ''OFFLINE'' @ ''  '' @ ljust 12 ''OFFLINE'' @ ''  '' @ ljust 12 ''OFFLINE'')]"
        unfolding nth by (simp add: sensor_label_def offline_values_def fmt_values_def)
      then show ?thesis
        using True lab seven unfolding offline_def
        by (intro exI [of _ "[COLOR_PAIR 4]"] exI [of _ "''OFFLINE''"])
           (simp add: length_ljust)
    next
      case False
      then have "?rows ! i = [Mvprintw (5 + i) 2 [COLOR_PAIR 3] (''Sensor '' @ fmt_02d i),
                      Mvprintw (5 + i) 12 [COLOR_PAIR 2]
                        (ljust 12 (cached (val_batt ?s)) @ ''  '' @ ljust 12 (cached (val_temp ?s))
                         @ ''  '' @ ljust 12 (cached (val_light ?s)))]"
        unfolding nth by (simp add: sensor_label_def online_values_def fmt_values_def)
      then show ?thesis
        using False lab bound unfolding offline_def
        by (intro exI [of _ "[COLOR_PAIR 2]"] exI [of _ "cached (val_batt ?s)"]
              exI [of _ "cached (val_temp ?s)"] exI [of _ "cached (val_light ?s)"])
           (simp add: length_ljust)
    qed
  qed
  show ?thesis
  proof (intro exI conjI)
    show "render_frame sensors
            = Inr ([frame_title, frame_disclaimer, frame_header] @ concat ?rows @ [frame_footer])"
      by (rule fr)
  qed (use hd ht len rows in blast)+
qed

text \<open>
  The theorem on the array after start-up and one poll pass in which every channel
  read \<open>3.7\<close> and a line break.
\<close>

theorem C8_columns_have_minimum_width_witness:
  "sensors_ok (polled_all (\<lambda>i m. Rd_Data (''3.7'' @ [NL])) (map (opened (\<lambda>p. 3)) [0..<MAX_SENSORS]))
   \<and> (\<exists>rows.
         render_frame (polled_all (\<lambda>i m. Rd_Data (''3.7'' @ [NL])) (map (opened (\<lambda>p. 3)) [0..<MAX_SENSORS]))
           = Inr ([frame_title, frame_disclaimer, frame_header] @ concat rows @ [frame_footer])
         \<and> length rows = MAX_SENSORS
         \<and> rows ! 0 = [Mvprintw 5 2 [COLOR_PAIR 3] ''Sensor 00'',
                        Mvprintw 5 12 [COLOR_PAIR 2] ''3.7           3.7           3.7         ''])"
proof -
  let ?rd = "\<lambda>(i::nat) (m::metric). Rd_Data (''3.7'' @ [NL])"
  let ?ss0 = "map (opened (\<lambda>p. 3)) [0..<MAX_SENSORS]"
  let ?ss = "polled_all ?rd ?ss0"
  have ok: "sensors_ok ?ss" by (intro sensors_ok_polled_all sensors_ok_opened)
  have i: "(0::nat) < MAX_SENSORS" by (simp add: MAX_SENSORS_def)
  have s: "?ss ! 0 = polled (?rd 0) (opened (\<lambda>p. 3) 0)"
    using i by (simp add: polled_all_nth)
  have fl: "first_line (''3.7'' @ [NL]) = ''3.7''"
    by (simp add: first_line_alt BUF_SIZE_def)
  have c: "cached (val_of m (?ss ! 0)) = ''3.7''" for m
  proof -
    have "0 \<le> fd_of m (opened (\<lambda>p. 3) 0)"
      by (cases m) (simp_all add: opened_def open_sensor_dev_def)
    then have "cached (val_of m (polled (?rd 0) (opened (\<lambda>p. 3) 0))) = first_line (''3.7'' @ [NL])"
      by (rule cached_after_reading) simp_all
    then show ?thesis unfolding s fl .
  qed
  have fd: "\<not> fd_batt (?ss ! 0) < 0"
    unfolding s by (simp add: polled_def opened_def open_sensor_dev_def)
  have ne: "\<not> (fd_batt (?ss ! 0) < 0 \<or> cached (val_batt (?ss ! 0)) = [])"
    using fd c [of Batt] by simp
  have lab: "''Sensor '' @ fmt_02d 0 = ''Sensor 00''" by code_simp
  have line: "ljust 12 ''3.7'' @ ''  '' @ ljust 12 ''3.7'' @ ''  '' @ ljust 12 ''3.7''
             = ''3.7           3.7           3.7         ''" by code_simp
  from C8_columns_have_minimum_width [OF ok] show ?thesis
  proof (elim exE conjE)
    fix rows
    assume fr: "render_frame ?ss = Inr ([frame_title, frame_disclaimer, frame_header] @ concat rows @ [frame_footer])"
      and len: "length rows = MAX_SENSORS"
      and rows: "\<forall>i<MAX_SENSORS. \<exists>attrs b t l.
          rows ! i = [Mvprintw (5 + i) 2 [COLOR_PAIR 3] (''Sensor '' @ fmt_02d i),
                      Mvprintw (5 + i) 12 attrs (ljust 12 b @ ''  '' @ ljust 12 t @ ''  '' @ ljust 12 l)]
          \<and> length (''Sensor '' @ fmt_02d i) = 9
          \<and> (attrs, b, t, l) =
              (if fd_batt (?ss ! i) < 0 \<or> cached (val_batt (?ss ! i)) = []
               then ([COLOR_PAIR 4], ''OFFLINE'', ''OFFLINE'', ''OFFLINE'')
               else ([COLOR_PAIR 2], cached (val_batt (?ss ! i)), cached (val_temp (?ss ! i)),
                     cached (val_light (?ss ! i))))
          \<and> length (ljust 12 b) = max 12 (length b)
          \<and> length (ljust 12 t) = max 12 (length t)
          \<and> length (ljust 12 l) = max 12 (length l)
          \<and> length b \<le> BUF_SIZE - 1 \<and> length t \<le> BUF_SIZE - 1 \<and> length l \<le> BUF_SIZE - 1"
    from rows [rule_format, OF i] obtain attrs b t l where
      r0: "rows ! 0 = [Mvprintw (5 + 0) 2 [COLOR_PAIR 3] (''Sensor '' @ fmt_02d 0),
                      Mvprintw (5 + 0) 12 attrs (ljust 12 b @ ''  '' @ ljust 12 t @ ''  '' @ ljust 12 l)]"
      and v: "(attrs, b, t, l) =
              (if fd_batt (?ss ! 0) < 0 \<or> cached (val_batt (?ss ! 0)) = []
               then ([COLOR_PAIR 4], ''OFFLINE'', ''OFFLINE'', ''OFFLINE'')
               else ([COLOR_PAIR 2], cached (val_batt (?ss ! 0)), cached (val_temp (?ss ! 0)),
                     cached (val_light (?ss ! 0))))"
      by (elim exE conjE)
    have "(attrs, b, t, l) = ([COLOR_PAIR 2], ''3.7'', ''3.7'', ''3.7'')"
      using v c [of Batt] c [of Temp] c [of Light] unfolding if_not_P [OF ne] by simp
    then have vs: "attrs = [COLOR_PAIR 2]" "b = ''3.7''" "t = ''3.7''" "l = ''3.7''" by simp_all
    have "rows ! 0 = [Mvprintw 5 2 [COLOR_PAIR 3] ''Sensor 00'',
                        Mvprintw 5 12 [COLOR_PAIR 2] ''3.7           3.7           3.7         '']"
      unfolding r0 vs lab line by simp
    then show ?thesis using ok fr len by (intro conjI exI [of _ rows])
  qed
qed

subsection \<open>C9: a poll writes one buffer and nothing else\<close>

text \<open>
  C9. Polling one channel changes at most that channel's cached value: for every call
  \<^verbatim>\<open>try_read(sensors[i].fd_m, sensors[i].val_m)\<close> on a well-formed array, whether it
  returns true or false, the call completes within its buffers, the cached values of
  every other channel of every sensor are what they were, and so is every
  file-descriptor field of every sensor.
\<close>

theorem C9_poll_touches_one_buffer:
  assumes "sensors_ok sensors" and "i < MAX_SENSORS"
  shows "\<exists>ret sensors'. poll_channel r i m sensors = Inr (ret, sensors')
           \<and> sensors_ok sensors'
           \<and> (\<forall>j m'. (j, m') \<noteq> (i, m) \<longrightarrow> val_of m' (sensors' ! j) = val_of m' (sensors ! j))
           \<and> (\<forall>j m'. fd_of m' (sensors' ! j) = fd_of m' (sensors ! j))"
proof -
  let ?s = "sensors ! i"
  let ?b = "buffer_after r (fd_of m ?s) (val_of m ?s)"
  let ?ss = "sensors[i := set_val m ?b ?s]"
  have li: "i < length sensors" using assms by (simp add: sensors_ok_length)
  have ok: "sensor_ok ?s" using assms by (rule sensors_ok_nth)
  then have b: "buf_ok (val_of m ?s)" by (rule sensor_ok_val)
  then have len: "length (val_of m ?s) = BUF_SIZE" by (simp add: buf_ok_def)
  have run: "poll_channel r i m sensors = Inr (ret_after r (fd_of m ?s), ?ss)"
    using li len by (rule poll_channel_eq)
  have "sensor_ok (set_val m ?b ?s)"
    using ok b by (intro sensor_ok_set_val buf_ok_after)
  then have ok': "sensors_ok ?ss" using assms(1) by (intro sensors_ok_update)
  have vals: "\<forall>j m'. (j, m') \<noteq> (i, m) \<longrightarrow> val_of m' (?ss ! j) = val_of m' (sensors ! j)"
    using li by (auto simp: nth_list_update val_of_set_val)
  have fds: "\<forall>j m'. fd_of m' (?ss ! j) = fd_of m' (sensors ! j)"
    using li by (auto simp: nth_list_update)
  show ?thesis using run ok' vals fds by blast
qed

text \<open>The theorem on the array after start-up, at a battery reading of sensor 0.\<close>

theorem C9_poll_touches_one_buffer_witness:
  "sensors_ok (map (opened (\<lambda>p. 3)) [0..<MAX_SENSORS]) \<and> (0::nat) < MAX_SENSORS
   \<and> (\<exists>ret sensors'.
         poll_channel (Rd_Data (''3.7'' @ [NL])) 0 Batt (map (opened (\<lambda>p. 3)) [0..<MAX_SENSORS])
           = Inr (ret, sensors')
         \<and> val_of Temp (sensors' ! 0) = replicate BUF_SIZE NUL
         \<and> val_of Batt (sensors' ! 1) = replicate BUF_SIZE NUL
         \<and> fd_of Batt (sensors' ! 0) = 3)"
proof -
  let ?ss = "map (opened (\<lambda>p. 3)) [0..<MAX_SENSORS]"
  have ok: "sensors_ok ?ss" by (rule sensors_ok_opened)
  have i: "(0::nat) < MAX_SENSORS" "(1::nat) < MAX_SENSORS" by (simp_all add: MAX_SENSORS_def)
  obtain ret sensors' where
    run: "poll_channel (Rd_Data (''3.7'' @ [NL])) 0 Batt ?ss = Inr (ret, sensors')"
    and vals: "\<forall>j m'. (j, m') \<noteq> (0, Batt) \<longrightarrow> val_of m' (sensors' ! j) = val_of m' (?ss ! j)"
    and fds: "\<forall>j m'. fd_of m' (sensors' ! j) = fd_of m' (?ss ! j)"
    using C9_poll_touches_one_buffer [OF ok i(1), of "Rd_Data (''3.7'' @ [NL])" Batt] by blast
  have "val_of Temp (sensors' ! 0) = val_of Temp (?ss ! 0)"
    using vals [rule_format, of 0 Temp] by simp
  moreover have "val_of Batt (sensors' ! 1) = val_of Batt (?ss ! 1)"
    using vals [rule_format, of 1 Batt] by simp
  moreover have "fd_of Batt (sensors' ! 0) = fd_of Batt (?ss ! 0)"
    using fds [rule_format, of Batt 0] by simp
  moreover have "val_of Temp (?ss ! 0) = replicate BUF_SIZE NUL"
    "val_of Batt (?ss ! 1) = replicate BUF_SIZE NUL" "fd_of Batt (?ss ! 0) = 3"
    using i by (simp_all add: opened_def open_sensor_dev_def)
  ultimately show ?thesis using ok i(1) run by auto
qed

subsection \<open>C10: the buffers stay null-terminated and the writes stay inside them\<close>

text \<open>
  C10. After the start-up loop and after every poll pass, each of the three buffers of
  every sensor has \<open>BUF_SIZE\<close> bytes and holds a null-terminated string of at most
  \<open>BUF_SIZE - 1\<close> characters. Every write of the read routine stays inside its
  buffer: the routine never faults on a \<open>BUF_SIZE\<close>-byte buffer, \<^verbatim>\<open>read\<close> returns
  at most \<open>BUF_SIZE - 1\<close>, and the terminator stored at index \<open>bytes\<close> lands
  inside the \<open>BUF_SIZE\<close>-byte stack buffer.
\<close>

theorem C10_buffers_stay_terminated:
  "(\<exists>sensors0. init_sensors os_open = Inr sensors0 \<and> sensors_ok sensors0)
   \<and> (sensors_ok sensors \<longrightarrow>
        (\<exists>sensors'. poll_all rd sensors = Inr sensors' \<and> sensors_ok sensors')
        \<and> length sensors = MAX_SENSORS
        \<and> (\<forall>s\<in>set sensors. \<forall>m. length (val_of m s) = BUF_SIZE \<and> NUL \<in> set (val_of m s)
              \<and> c_str (val_of m s) = Inr (cached (val_of m s))
              \<and> length (cached (val_of m s)) \<le> BUF_SIZE - 1))
   \<and> (\<exists>ph sensors' trace. main os_open script = Inr (ph, sensors', trace) \<and> sensors_ok sensors')
   \<and> (length buffer = BUF_SIZE \<longrightarrow>
        (\<exists>ret buffer'. try_read r fd buffer = Inr (ret, buffer') \<and> length buffer' = BUF_SIZE
           \<and> (NUL \<in> set buffer \<longrightarrow> NUL \<in> set buffer')))
   \<and> (\<exists>bytes temp_buf. sys_read r (replicate BUF_SIZE None) (BUF_SIZE - 1) = Inr (bytes, temp_buf)
         \<and> bytes \<le> int (BUF_SIZE - 1) \<and> length temp_buf = BUF_SIZE
         \<and> (0 < bytes \<longrightarrow> (\<exists>temp_buf'. store temp_buf (nat bytes) (Some NUL) = Inr temp_buf')))"
proof (intro conjI impI)
  show "\<exists>sensors0. init_sensors os_open = Inr sensors0 \<and> sensors_ok sensors0"
    using init_sensors_eq sensors_ok_opened by blast
next
  assume "sensors_ok sensors"
  then show "\<exists>sensors'. poll_all rd sensors = Inr sensors' \<and> sensors_ok sensors'"
    using poll_all_eq sensors_ok_polled_all by blast
next
  assume "sensors_ok sensors"
  then show "length sensors = MAX_SENSORS" by (rule sensors_ok_length)
next
  assume ok: "sensors_ok sensors"
  show "\<forall>s\<in>set sensors. \<forall>m. length (val_of m s) = BUF_SIZE \<and> NUL \<in> set (val_of m s)
              \<and> c_str (val_of m s) = Inr (cached (val_of m s))
              \<and> length (cached (val_of m s)) \<le> BUF_SIZE - 1"
  proof (intro ballI allI)
    fix s m assume "s \<in> set sensors"
    then have "sensor_ok s" using ok by (simp add: sensors_ok_def list_all_iff)
    then have b: "buf_ok (val_of m s)" by (rule sensor_ok_val)
    show "length (val_of m s) = BUF_SIZE \<and> NUL \<in> set (val_of m s)
              \<and> c_str (val_of m s) = Inr (cached (val_of m s))
              \<and> length (cached (val_of m s)) \<le> BUF_SIZE - 1"
      using b c_str_ok [OF b] length_cached [OF b] by (simp add: buf_ok_def)
  qed
next
  show "\<exists>ph sensors' trace. main os_open script = Inr (ph, sensors', trace) \<and> sensors_ok sensors'"
    using main_invariant [of "\<lambda>ss tr. True" os_open script] by auto
next
  assume len: "length buffer = BUF_SIZE"
  show "\<exists>ret buffer'. try_read r fd buffer = Inr (ret, buffer') \<and> length buffer' = BUF_SIZE
           \<and> (NUL \<in> set buffer \<longrightarrow> NUL \<in> set buffer')"
    using try_read_eq [OF len] length_buffer_after [OF len] NUL_buffer_after by blast
next
  obtain bytes temp_buf where
    rd: "sys_read r (replicate BUF_SIZE None) (BUF_SIZE - 1) = Inr (bytes, temp_buf)"
    using sys_read_total by blast
  have b: "bytes \<le> int (BUF_SIZE - 1)" "length temp_buf = BUF_SIZE"
    using sys_read_bytes [OF rd] by simp_all
  have "0 < bytes \<longrightarrow> (\<exists>temp_buf'. store temp_buf (nat bytes) (Some NUL) = Inr temp_buf')"
    using b BUF_SIZE_pos by (auto simp: store_def)
  then show "\<exists>bytes temp_buf. sys_read r (replicate BUF_SIZE None) (BUF_SIZE - 1) = Inr (bytes, temp_buf)
         \<and> bytes \<le> int (BUF_SIZE - 1) \<and> length temp_buf = BUF_SIZE
         \<and> (0 < bytes \<longrightarrow> (\<exists>temp_buf'. store temp_buf (nat bytes) (Some NUL) = Inr temp_buf'))"
    using rd b by blast
qed

text \<open>The theorem after start-up, at a payload of 40 bytes: longer than the buffer.\<close>

theorem C10_buffers_stay_terminated_witness:
  "sensors_ok (map (opened (\<lambda>p. 3)) [0..<MAX_SENSORS])
   \<and> (\<exists>sensors'. poll_all (\<lambda>i m. Rd_Data (replicate 40 CHR ''A'')) (map (opened (\<lambda>p. 3)) [0..<MAX_SENSORS])
          = Inr sensors' \<and> sensors_ok sensors')
   \<and> length (replicate BUF_SIZE NUL) = BUF_SIZE
   \<and> NUL \<in> set (replicate BUF_SIZE NUL)
   \<and> (\<exists>ret buffer'. try_read (Rd_Data (replicate 40 CHR ''A'')) 3 (replicate BUF_SIZE NUL) = Inr (ret, buffer')
         \<and> length buffer' = BUF_SIZE \<and> NUL \<in> set buffer')
   \<and> sys_read (Rd_Data (replicate 40 CHR ''A'')) (replicate BUF_SIZE None) (BUF_SIZE - 1)
       = Inr (31, map Some (replicate 31 CHR ''A'') @ [None])
   \<and> store (map Some (replicate 31 CHR ''A'') @ [None]) (nat 31) (Some NUL)
       = Inr (map Some (replicate 31 CHR ''A'') @ [Some NUL])"
proof -
  let ?ss = "map (opened (\<lambda>p. 3)) [0..<MAX_SENSORS]"
  note T = C10_buffers_stay_terminated
    [of "\<lambda>p. 3" ?ss "\<lambda>i m. Rd_Data (replicate 40 CHR ''A'')" "[]" "replicate BUF_SIZE NUL"
        "Rd_Data (replicate 40 CHR ''A'')" 3]
  have ok: "sensors_ok ?ss" by (rule sensors_ok_opened)
  have len: "length (replicate BUF_SIZE NUL) = BUF_SIZE" by simp
  have nul: "NUL \<in> set (replicate BUF_SIZE NUL)" by (simp add: BUF_SIZE_def)
  have 1: "\<exists>sensors'. poll_all (\<lambda>i m. Rd_Data (replicate 40 CHR ''A'')) ?ss = Inr sensors'
             \<and> sensors_ok sensors'"
    using T ok by blast
  have 2: "\<exists>ret buffer'. try_read (Rd_Data (replicate 40 CHR ''A'')) 3 (replicate BUF_SIZE NUL) = Inr (ret, buffer')
         \<and> length buffer' = BUF_SIZE \<and> NUL \<in> set buffer'"
    using T len nul by blast
  have 3: "sys_read (Rd_Data (replicate 40 CHR ''A'')) (replicate BUF_SIZE None) (BUF_SIZE - 1)
       = Inr (31, map Some (replicate 31 CHR ''A'') @ [None])"
    by code_simp
  have 4: "store (map Some (replicate 31 CHR ''A'') @ [None]) (nat 31) (Some NUL)
       = Inr (map Some (replicate 31 CHR ''A'') @ [Some NUL])"
    by code_simp
  show ?thesis using ok 1 len nul 2 3 4 by blast
qed

end
